theory Spec2Isabelle
  imports Complex_Main
begin

section \<open>Python values used by the decode strategy\<close>

text \<open>
  Exceptions of the Python source are values.  A method that mutates \<open>self\<close> before it
  raises returns the error together with the state reached at the raise.
  \<open>ProcessAbort\<close> is no exception: it stands for a write outside a tensor's buffer,
  after which the interpreter does not go on.
\<close>

datatype py_error =
  AssertionError | AttributeError | IndexError | KeyError | RuntimeError | UnboundLocalError
  | ValueError | ProcessAbort

text \<open>
  An instance attribute that \<open>__init__\<close> does not assign (\<open>alive_seq\<close>,
  \<open>is_finished_list\<close>, \<open>target_prefix\<close>, \<open>select_indices\<close>) does not exist
  until a later method assigns it; reading it before raises \<open>AttributeError\<close>.
\<close>

datatype 'a attr = Unset | Assigned 'a

text \<open>
  A two-dimensional tensor is its column count together with its rows: the shape of a
  torch tensor is stored, so a tensor with no row still has a second dimension.
  \<open>wf_tensor\<close> says that every row has that many entries.  Token ids are Python
  integers (\<open>int\<close>).  A score is the real number that a finite floating-point value
  denotes; infinities and NaN are not modelled.  The dtype of a score tensor enters where
  the source computes with scores or writes a constant that the dtype may not hold: the
  rounding of \<open>log_probs -= 10000 * dropdowns\<close> and the conversion of \<open>-10e20\<close> are
  parameters of the methods that do them.  \<open>-65504\<close> is a value of float16, float32
  and float64 and is stored as it is.
\<close>

record 'a tensor2 =
  ncols :: nat
  rows :: "'a list list"

definition nrows :: "'a tensor2 \<Rightarrow> nat" where
  "nrows t = length (rows t)"

definition wf_tensor :: "'a tensor2 \<Rightarrow> bool" where
  "wf_tensor t = list_all (\<lambda>r. length r = ncols t) (rows t)"

text \<open>\<open>torch.full([n, m], v)\<close>.\<close>

definition full :: "nat \<Rightarrow> nat \<Rightarrow> 'a \<Rightarrow> 'a tensor2" where
  "full n m v = \<lparr>ncols = m, rows = replicate n (replicate m v)\<rparr>"

text \<open>
  Python and torch indexing along a dimension of size \<open>n\<close>: an index \<open>i\<close> with
  \<open>0 \<le> i < n\<close> is itself, one with \<open>-n \<le> i < 0\<close> counts from the end, any other
  raises \<open>IndexError\<close> (\<open>None\<close> here).
\<close>

definition py_index :: "nat \<Rightarrow> int \<Rightarrow> nat option" where
  "py_index n i =
     (if 0 \<le> i \<and> i < int n then Some (nat i)
      else if - int n \<le> i \<and> i < 0 then Some (nat (int n + i))
      else None)"

text \<open>\<open>t[:, j] = v\<close>\<close>

definition set_column :: "'a tensor2 \<Rightarrow> int \<Rightarrow> 'a \<Rightarrow> py_error + 'a tensor2" where
  "set_column t j v =
     (case py_index (ncols t) j of
        None \<Rightarrow> Inl IndexError
      | Some c \<Rightarrow> Inr (t\<lparr>rows := map (\<lambda>r. r[c := v]) (rows t)\<rparr>))"


text \<open>\<open>t[:, 1:]\<close>\<close>

definition drop_first_column :: "'a tensor2 \<Rightarrow> 'a tensor2" where
  "drop_first_column t = \<lparr>ncols = ncols t - 1, rows = map (drop 1) (rows t)\<rparr>"

text \<open>\<open>xs[i]\<close> on a Python list.\<close>

definition list_get :: "'a list \<Rightarrow> int \<Rightarrow> py_error + 'a" where
  "list_get xs i =
     (case py_index (length xs) i of None \<Rightarrow> Inl IndexError | Some j \<Rightarrow> Inr (xs ! j))"


text \<open>\<open>max(xs)\<close> and \<open>min(xs)\<close> of a Python list; both raise \<open>ValueError\<close> on \<open>[]\<close>.\<close>

definition py_max :: "int list \<Rightarrow> py_error + int" where
  "py_max xs = (case xs of [] \<Rightarrow> Inl ValueError | x # ys \<Rightarrow> Inr (fold max ys x))"

definition py_min :: "int list \<Rightarrow> py_error + int" where
  "py_min xs = (case xs of [] \<Rightarrow> Inl ValueError | x # ys \<Rightarrow> Inr (fold min ys x))"

section \<open>The object store\<close>

text \<open>
  \<open>forbidden_tokens\<close> is a list of references to \<open>dict\<close> objects whose values are
  references to \<open>set\<close> objects; both kinds are mutated in place
  (\<open>setdefault\<close>, \<open>add\<close>), and \<open>deepcopy\<close> allocates new ones.  The store maps an
  address to the object it holds; the addresses below \<open>fresh\<close> are the allocated ones.
  A dict object is its items in insertion order, keyed by tuples of token ids.
\<close>

type_synonym addr = nat

record store =
  dicts :: "addr \<Rightarrow> (int list \<times> addr) list"
  sets :: "addr \<Rightarrow> int set"
  fresh :: addr

definition empty_store :: store where
  "empty_store = \<lparr>dicts = (\<lambda>_. []), sets = (\<lambda>_. {}), fresh = 0\<rparr>"

text \<open>\<open>dict()\<close>\<close>

definition new_dict :: "store \<Rightarrow> addr \<times> store" where
  "new_dict h = (fresh h, h\<lparr>dicts := (dicts h)(fresh h := []), fresh := Suc (fresh h)\<rparr>)"

text \<open>A new set object with the given elements (\<open>set()\<close> when there is none).\<close>

definition new_set :: "int set \<Rightarrow> store \<Rightarrow> addr \<times> store" where
  "new_set v h = (fresh h, h\<lparr>sets := (sets h)(fresh h := v), fresh := Suc (fresh h)\<rparr>)"

text \<open>\<open>[dict() for _ in range(n)]\<close>\<close>

fun new_dicts :: "nat \<Rightarrow> store \<Rightarrow> addr list \<times> store" where
  "new_dicts 0 h = ([], h)"
| "new_dicts (Suc n) h =
     (let (d, h1) = new_dict h; (ds, h2) = new_dicts n h1 in (d # ds, h2))"

section \<open>DecodeStrategy\<close>

text \<open>
  The attributes of a \<open>DecodeStrategy\<close> object.  \<open>global_scorer\<close> is stored and never
  read by the methods of the base class, and \<open>add_estimator\<close> is not stored; both are
  left out.  The result caches hold one (initially empty) list per batch item.  The
  attribute \<open>done\<close> is the field \<open>is_done\<close> (\<open>done\<close> is a keyword of Isabelle).
\<close>

record decode_state =
  pad :: int
  bos :: int
  eos :: "int list"
  unk :: int
  start :: int
  batch_size :: int
  parallel_paths :: int
  predictions :: "int list list list"
  scores :: "real list list"
  attention :: "real list list list list"
  hypotheses :: "(real \<times> int list) list list"
  min_length :: int
  max_length :: int
  ban_unk_token :: bool
  block_ngram_repeat :: int
  forbidden_tokens :: "addr list"
  exclusion_tokens :: "int set"
  return_attention :: bool
  is_done :: bool
  alive_seq :: "int tensor2 attr"
  is_finished_list :: "bool list list attr"
  target_prefix :: "int tensor2 option attr"
  select_indices :: "int list attr"

text \<open>The \<open>eos\<close> argument of the constructor is an \<open>int\<close> or a list of them.\<close>

datatype eos_arg = EosInt int | EosList "int list"

text \<open>
  \<open>DecodeStrategy.__init__\<close>: every argument is stored as given; \<open>range(n)\<close> is empty
  for a negative \<open>n\<close>.  The body has no \<open>raise\<close> and no \<open>assert\<close>: the result is
  always \<open>Inr\<close>, the new object together with the store holding its dicts.
\<close>

definition DecodeStrategy_init ::
  "store \<Rightarrow> int \<Rightarrow> int \<Rightarrow> eos_arg \<Rightarrow> int \<Rightarrow> int \<Rightarrow> int \<Rightarrow> int \<Rightarrow> int \<Rightarrow> int \<Rightarrow> int set \<Rightarrow> bool
     \<Rightarrow> int \<Rightarrow> bool \<Rightarrow> py_error + (decode_state \<times> store)" where
  "DecodeStrategy_init h pad' bos' eos' unk' start' batch_size' parallel_paths' min_length'
      block_ngram_repeat' exclusion_tokens' return_attention' max_length' ban_unk_token' =
     (let n_paths = batch_size' * parallel_paths';
          (ds, h') = new_dicts (nat n_paths) h
      in Inr (\<lparr>pad = pad', bos = bos',
               eos = (case eos' of EosInt e \<Rightarrow> [e] | EosList es \<Rightarrow> es),
               unk = unk', start = start',
               batch_size = batch_size', parallel_paths = parallel_paths',
               predictions = replicate (nat batch_size') [],
               scores = replicate (nat batch_size') [],
               attention = replicate (nat batch_size') [],
               hypotheses = replicate (nat batch_size') [],
               min_length = min_length', max_length = max_length',
               ban_unk_token = ban_unk_token',
               block_ngram_repeat = block_ngram_repeat',
               forbidden_tokens = ds,
               exclusion_tokens = exclusion_tokens',
               return_attention = return_attention',
               is_done = False,
               alive_seq = Unset, is_finished_list = Unset,
               target_prefix = Unset, select_indices = Unset\<rparr>, h'))"

text \<open>
  \<open>DecodeStrategy.initialize\<close>.  \<open>torch.full\<close> raises on a negative size, before
  anything is assigned.  The assertion on the prefix comes after \<open>alive_seq\<close> and
  \<open>is_finished_list\<close> are assigned and before \<open>max_length\<close>, \<open>min_length\<close> and
  \<open>target_prefix\<close> are.  \<open>max(prefix_non_pad)\<close> raises on a prefix with no row.
\<close>

definition prefix_non_pad :: "int \<Rightarrow> int tensor2 \<Rightarrow> int list" where
  "prefix_non_pad p t = map (\<lambda>r. int (length (filter (\<lambda>x. x \<noteq> p) r))) (rows t)"

definition initialize ::
  "decode_state \<Rightarrow> int tensor2 option \<Rightarrow> (py_error \<times> decode_state) + decode_state" where
  "initialize s tp_arg =
     (if batch_size s * parallel_paths s < 0 then Inl (RuntimeError, s)
      else
        let s1 = s\<lparr>alive_seq := Assigned (full (nat (batch_size s * parallel_paths s)) 1 (start s)),
                   is_finished_list :=
                     Assigned (replicate (nat (batch_size s))
                                 (replicate (nat (parallel_paths s)) False))\<rparr>
        in case tp_arg of
             None \<Rightarrow> Inr (s1\<lparr>target_prefix := Assigned None\<rparr>)
           | Some tp \<Rightarrow>
               if int (nrows tp) \<noteq> batch_size s * parallel_paths s
               then Inl (AssertionError, s1)
               else
                 let tp' = drop_first_column tp;
                     counts = prefix_non_pad (pad s) tp'
                 in case py_max counts of
                      Inl e \<Rightarrow> Inl (e, s1)
                    | Inr mx \<Rightarrow>
                        let s2 = s1\<lparr>max_length := max_length s1 + (mx - 1)\<rparr>
                        in case py_min counts of
                             Inl e \<Rightarrow> Inl (e, s2)
                           | Inr mn \<Rightarrow>
                               Inr (s2\<lparr>min_length := min_length s2 + (mn - 1),
                                       target_prefix := Assigned (Some tp')\<rparr>))"

text \<open>\<open>__len__\<close>: \<open>self.alive_seq.shape[1]\<close>\<close>

definition len :: "decode_state \<Rightarrow> py_error + nat" where
  "len s = (case alive_seq s of Unset \<Rightarrow> Inl AttributeError | Assigned a \<Rightarrow> Inr (ncols a))"

text \<open>
  \<open>ensure_min_length\<close> writes into \<open>log_probs\<close> in place; the model returns the
  tensor after the writes.
\<close>

fun set_columns :: "'a tensor2 \<Rightarrow> int list \<Rightarrow> 'a \<Rightarrow> py_error + 'a tensor2" where
  "set_columns t [] v = Inr t"
| "set_columns t (j # js) v =
     (case set_column t j v of Inl e \<Rightarrow> Inl e | Inr t' \<Rightarrow> set_columns t' js v)"

definition ensure_min_length :: "decode_state \<Rightarrow> real tensor2 \<Rightarrow> py_error + real tensor2" where
  "ensure_min_length s log_probs =
     (case len s of
        Inl e \<Rightarrow> Inl e
      | Inr n \<Rightarrow>
          if int n \<le> min_length s then set_columns log_probs (eos s) (- 65504)
          else Inr log_probs)"


text \<open>\<open>ensure_max_length\<close>\<close>

definition ensure_max_length :: "decode_state \<Rightarrow> py_error + decode_state" where
  "ensure_max_length s =
     (case len s of
        Inl e \<Rightarrow> Inl e
      | Inr n \<Rightarrow>
          if int n = max_length s + 1 then
            (case is_finished_list s of
               Unset \<Rightarrow> Inl AttributeError
             | Assigned fl \<Rightarrow>
                 Inr (s\<lparr>is_finished_list :=
                          Assigned (replicate (length fl)
                                      (replicate (nat (parallel_paths s)) True))\<rparr>))
          else Inr s)"

subsection \<open>Forced prefix\<close>






subsection \<open>Blocking repeated n-grams\<close>

text \<open>
  \<open>xs[-n:]\<close> for \<open>n \<ge> 0\<close>: the last \<open>n\<close> entries (all of them when there are
  fewer), except that \<open>-0\<close> is \<open>0\<close>, so \<open>xs[-0:]\<close> is the whole of \<open>xs\<close>.
\<close>

definition last_n :: "nat \<Rightarrow> 'a list \<Rightarrow> 'a list" where
  "last_n n xs = (if n = 0 then xs else drop (length xs - n) xs)"

text \<open>\<open>d.get(key, None)\<close>, \<open>d[key]\<close>, \<open>d.setdefault(key, a)\<close> and \<open>s.add(x)\<close>.\<close>

definition dict_get :: "store \<Rightarrow> addr \<Rightarrow> int list \<Rightarrow> addr option" where
  "dict_get h d key = map_of (dicts h d) key"

definition dict_getitem :: "store \<Rightarrow> addr \<Rightarrow> int list \<Rightarrow> py_error + addr" where
  "dict_getitem h d key = (case map_of (dicts h d) key of None \<Rightarrow> Inl KeyError | Some a \<Rightarrow> Inr a)"

definition dict_setdefault :: "addr \<Rightarrow> int list \<Rightarrow> addr \<Rightarrow> store \<Rightarrow> store" where
  "dict_setdefault d key a h =
     (case map_of (dicts h d) key of
        Some _ \<Rightarrow> h
      | None \<Rightarrow> h\<lparr>dicts := (dicts h)(d := dicts h d @ [(key, a)])\<rparr>)"

definition set_add :: "addr \<Rightarrow> int \<Rightarrow> store \<Rightarrow> store" where
  "set_add a x h = h\<lparr>sets := (sets h)(a := insert x (sets h a))\<rparr>"

text \<open>
  \<open>deepcopy\<close> of a dict object: a new dict whose items have the same keys (tuples of
  integers are immutable and are not copied) and, as values, copies of the set objects.
  The memo of \<open>deepcopy\<close> maps an object already copied to its copy, so a set object
  stored under two keys is copied once.
\<close>

fun copy_items ::
  "(int list \<times> addr) list \<Rightarrow> (addr \<times> addr) list \<Rightarrow> store \<Rightarrow> (int list \<times> addr) list \<times> store" where
  "copy_items [] memo h = ([], h)"
| "copy_items ((key, a) # xs) memo h =
     (case map_of memo a of
        Some a' \<Rightarrow> (let (ys, h2) = copy_items xs memo h in ((key, a') # ys, h2))
      | None \<Rightarrow>
          (let (a', h1) = new_set (sets h a) h;
               (ys, h2) = copy_items xs ((a, a') # memo) h1
           in ((key, a') # ys, h2)))"

definition deepcopy_dict :: "addr \<Rightarrow> store \<Rightarrow> addr \<times> store" where
  "deepcopy_dict d h =
     (let (d', h1) = new_dict h;
          (items, h2) = copy_items (dicts h d) [] h1
      in (d', h2\<lparr>dicts := (dicts h2)(d' := items)\<rparr>))"

text \<open>
  \<open>log_probs[path_idx, list(forbidden_tokens)] = -10e20\<close>.  The Python float
  \<open>-10e20\<close> is \<open>-10\<^sup>2\<^sup>1\<close>.  The write first converts it to the dtype of the
  scores: \<open>to_dtype x\<close> is the value the dtype stores for the Python float \<open>x\<close>, or
  the error of a dtype that cannot hold it (float16 raises \<open>RuntimeError\<close>, float32
  stores the nearest value).  Then every listed index of the row is written (a negative
  one counts from the end); an index outside the row raises.
\<close>

definition ngram_sentinel :: real where
  "ngram_sentinel = - 1000000000000000000000"

definition block_row :: "real \<Rightarrow> real list \<Rightarrow> int set \<Rightarrow> py_error + real list" where
  "block_row v r F =
     (if \<forall>t\<in>F. - int (length r) \<le> t \<and> t < int (length r)
      then Inr (map (\<lambda>(j, x). if int j \<in> F \<or> int j - int (length r) \<in> F then v else x)
                  (enumerate 0 r))
      else Inl IndexError)"

text \<open>
  The loop of \<open>block_ngram_repeats\<close> over the paths, \<open>n = block_ngram_repeat - 1\<close>;
  the items are the rows of \<open>alive_seq\<close> with their indices.
\<close>

fun block_paths ::
  "(real \<Rightarrow> py_error + real) \<Rightarrow> nat \<Rightarrow> store \<Rightarrow> addr list \<Rightarrow> (nat \<times> int list) list
     \<Rightarrow> real tensor2 \<Rightarrow> py_error + real tensor2" where
  "block_paths to_dtype n h ft [] lp = Inr lp"
| "block_paths to_dtype n h ft ((path_idx, seq) # rest) lp =
     (case list_get ft (int path_idx) of
        Inl e \<Rightarrow> Inl e
      | Inr d \<Rightarrow>
          (case dict_get h d (last_n n seq) of
             None \<Rightarrow> block_paths to_dtype n h ft rest lp
           | Some fa \<Rightarrow>
               (case to_dtype ngram_sentinel of
                  Inl e \<Rightarrow> Inl e
                | Inr v \<Rightarrow>
                    if path_idx < nrows lp then
                      (case block_row v (rows lp ! path_idx) (sets h fa) of
                         Inl e \<Rightarrow> Inl e
                       | Inr r' \<Rightarrow>
                           block_paths to_dtype n h ft rest
                             (lp\<lparr>rows := (rows lp)[path_idx := r']\<rparr>))
                    else Inl IndexError)))"

definition block_ngram_repeats ::
  "(real \<Rightarrow> py_error + real) \<Rightarrow> decode_state \<Rightarrow> store \<Rightarrow> real tensor2
     \<Rightarrow> py_error + real tensor2" where
  "block_ngram_repeats to_dtype s h log_probs =
     (if block_ngram_repeat s \<le> 0 then Inr log_probs
      else case len s of
             Inl e \<Rightarrow> Inl e
           | Inr l \<Rightarrow>
               if int l < block_ngram_repeat s then Inr log_probs
               else (case alive_seq s of
                       Unset \<Rightarrow> Inl AttributeError
                     | Assigned a \<Rightarrow>
                         block_paths to_dtype (nat (block_ngram_repeat s - 1)) h
                           (forbidden_tokens s) (enumerate 0 (rows a)) log_probs))"

text \<open>
  The body of the loop of \<open>maybe_update_forbidden_tokens\<close> for one pair of
  \<open>zip(self.select_indices, self.alive_seq)\<close>: \<open>d\<close> is
  \<open>self.forbidden_tokens[path_idx]\<close>, the result is the table appended to the local
  list.  The argument \<open>set()\<close> of \<open>setdefault\<close> is evaluated, so allocated, whether
  or not the key is present.
\<close>

definition update_path ::
  "nat \<Rightarrow> int set \<Rightarrow> addr \<Rightarrow> int list \<Rightarrow> store \<Rightarrow> py_error + (addr \<times> store)" where
  "update_path n excl d seq h =
     (let (d', h1) = deepcopy_dict d h;
          current_ngram = last_n n seq
      in if set current_ngram \<inter> excl \<noteq> {} then Inr (d', h1)
         else if current_ngram = [] then Inl IndexError
         else
           (let (e, h2) = new_set {} h1;
                h3 = dict_setdefault d' (butlast current_ngram) e h2
            in case dict_getitem h3 d' (butlast current_ngram) of
                 Inl err \<Rightarrow> Inl err
               | Inr fa \<Rightarrow> Inr (d', set_add fa (last current_ngram) h3)))"

text \<open>
  The loop, \<open>n = block_ngram_repeat\<close>: \<open>old\<close> is \<open>self.forbidden_tokens\<close>, \<open>acc\<close>
  the local list \<open>forbidden_tokens\<close>.
\<close>

fun update_paths ::
  "nat \<Rightarrow> int set \<Rightarrow> addr list \<Rightarrow> (int \<times> int list) list \<Rightarrow> addr list \<Rightarrow> store
     \<Rightarrow> py_error + (addr list \<times> store)" where
  "update_paths n excl old [] acc h = Inr (acc, h)"
| "update_paths n excl old ((path_idx, seq) # rest) acc h =
     (case list_get old path_idx of
        Inl e \<Rightarrow> Inl e
      | Inr d \<Rightarrow>
          (case update_path n excl d seq h of
             Inl e \<Rightarrow> Inl e
           | Inr (d', h') \<Rightarrow> update_paths n excl old rest (acc @ [d']) h'))"

definition maybe_update_forbidden_tokens ::
  "decode_state \<Rightarrow> store \<Rightarrow> py_error + (decode_state \<times> store)" where
  "maybe_update_forbidden_tokens s h =
     (if block_ngram_repeat s \<le> 0 then Inr (s, h)
      else case len s of
             Inl e \<Rightarrow> Inl e
           | Inr l \<Rightarrow>
               if int l < block_ngram_repeat s then Inr (s, h)
               else (case select_indices s of
                       Unset \<Rightarrow> Inl AttributeError
                     | Assigned sel \<Rightarrow>
                         (case alive_seq s of
                            Unset \<Rightarrow> Inl AttributeError
                          | Assigned a \<Rightarrow>
                              (case update_paths (nat (block_ngram_repeat s)) (exclusion_tokens s)
                                      (forbidden_tokens s) (zip sel (rows a)) [] h of
                                 Inl e \<Rightarrow> Inl e
                               | Inr (ft, h') \<Rightarrow> Inr (s\<lparr>forbidden_tokens := ft\<rparr>, h')))))"

text \<open>What a table says: the set of forbidden tokens stored under each key.\<close>

definition table_of :: "store \<Rightarrow> addr \<Rightarrow> int list \<Rightarrow> int set option" where
  "table_of h d key = map_option (sets h) (map_of (dicts h d) key)"

text \<open>The objects a table consists of: its set objects (the dict object is \<open>d\<close>).\<close>

definition table_sets :: "store \<Rightarrow> addr \<Rightarrow> addr set" where
  "table_sets h d = snd ` set (dicts h d)"

text \<open>
  A table of the store: the dict and its sets are allocated, its keys are distinct, and
  no set object is stored under two keys (\<open>setdefault\<close> stores a new set each time).
\<close>

definition wf_table :: "store \<Rightarrow> addr \<Rightarrow> bool" where
  "wf_table h d \<longleftrightarrow>
     d < fresh h \<and> (\<forall>a\<in>table_sets h d. a < fresh h) \<and>
     distinct (map fst (dicts h d)) \<and> distinct (map snd (dicts h d))"

text \<open>
  The table the update is expected to produce from a table \<open>T\<close> and the last tokens
  \<open>g\<close> of a sequence: \<open>T\<close> itself when \<open>g\<close> holds an excluded token, otherwise \<open>T\<close>
  with the last token of \<open>g\<close> added to the set stored under the tokens before it.
\<close>

definition extend_table ::
  "int set \<Rightarrow> int list \<Rightarrow> (int list \<Rightarrow> int set option) \<Rightarrow> int list \<Rightarrow> int set option" where
  "extend_table excl g T =
     (if set g \<inter> excl \<noteq> {} then T
      else T(butlast g \<mapsto> insert (last g) (case T (butlast g) of None \<Rightarrow> {} | Some F \<Rightarrow> F)))"

text \<open>
  A row of scores after the tokens of \<open>F\<close> are blocked with the stored value \<open>v\<close>,
  and a row after the lookup of the last \<open>n\<close> tokens of \<open>seq\<close> in the table \<open>d\<close>:
  blocked by the set found, or as it was when the key is absent.
\<close>

definition blocked_row :: "real \<Rightarrow> real list \<Rightarrow> int set \<Rightarrow> real list" where
  "blocked_row v r F = map (\<lambda>(j, x). if int j \<in> F then v else x) (enumerate 0 r)"

definition path_blocked ::
  "real \<Rightarrow> nat \<Rightarrow> store \<Rightarrow> addr \<Rightarrow> int list \<Rightarrow> real list \<Rightarrow> real list" where
  "path_blocked v n h d seq r =
     (case table_of h d (last_n n seq) of None \<Rightarrow> r | Some F \<Rightarrow> blocked_row v r F)"

text \<open>
  A table respects the exclusion set when no key holds an excluded token and no excluded
  token is forbidden.
\<close>

definition excl_ok :: "int set \<Rightarrow> (int list \<Rightarrow> int set option) \<Rightarrow> bool" where
  "excl_ok excl T \<longleftrightarrow> (\<forall>key F. T key = Some F \<longrightarrow> set key \<inter> excl = {} \<and> F \<inter> excl = {})"

section \<open>TransformerDecoder\<close>

text \<open>
  A tensor of any rank is its shape and its entries in row-major order.
  \<open>torch.tensor([])\<close> has shape \<open>[0]\<close> and no entry.  Devices and dtypes are not
  modelled, so \<open>.to(device)\<close> and \<open>.to(dtype)\<close> are the identity.
\<close>

record tensor =
  shape :: "nat list"
  elems :: "real list"

definition empty_tensor :: tensor where
  "empty_tensor = \<lparr>shape = [0], elems = []\<rparr>"

definition zeros :: "nat list \<Rightarrow> tensor" where
  "zeros sh = \<lparr>shape = sh, elems = replicate (prod_list sh) 0\<rparr>"

definition numel :: "tensor \<Rightarrow> nat" where
  "numel t = prod_list (shape t)"

text \<open>\<open>t.dim()\<close> and \<open>t.size(i)\<close>\<close>

definition dim :: "tensor \<Rightarrow> nat" where
  "dim t = length (shape t)"

definition size_at :: "tensor \<Rightarrow> int \<Rightarrow> py_error + nat" where
  "size_at t i = list_get (shape t) i"

text \<open>
  The \<open>layer_cache\<close> attribute of an attention module is a pair of the flag that says
  whether the cache is active and a dict, with the entries \<open>keys\<close> and \<open>values\<close> or,
  for average attention, the entry \<open>prev_g\<close>.
\<close>

datatype cache_dict = KeysValues tensor tensor | PrevG tensor

type_synonym layer_cache = "bool \<times> cache_dict"

text \<open>
  A decoder layer, as far as \<open>TransformerDecoder\<close> reads and writes it: whether
  \<open>layer.self_attn\<close> is an \<open>AverageAttention\<close>, the caches of \<open>layer.self_attn\<close> and
  \<open>layer.context_attn\<close>, and the weights, which only the layer itself uses.
\<close>

datatype attn_kind = MultiHeaded | Average

record 'w decoder_layer =
  self_attn_kind :: attn_kind
  self_attn_cache :: layer_cache
  context_attn_cache :: layer_cache
  weights :: 'w

text \<open>
  \<open>TransformerDecoder._init_cache\<close>.  \<open>enc_out.size(0)\<close> and \<open>enc_out.size(-1)\<close>
  are read before the loop; they raise on a tensor without a dimension.
\<close>

definition init_layer_cache :: "nat \<Rightarrow> nat \<Rightarrow> 'w decoder_layer \<Rightarrow> 'w decoder_layer" where
  "init_layer_cache batch depth layer =
     layer\<lparr>context_attn_cache := (True, KeysValues empty_tensor empty_tensor),
           self_attn_cache :=
             (if self_attn_kind layer = Average
              then (True, PrevG (zeros [batch, 1, depth]))
              else (True, KeysValues empty_tensor empty_tensor))\<rparr>"

definition init_cache :: "tensor \<Rightarrow> 'w decoder_layer list \<Rightarrow> py_error + 'w decoder_layer list" where
  "init_cache enc_out layers =
     (case size_at enc_out 0 of
        Inl e \<Rightarrow> Inl e
      | Inr batch \<Rightarrow>
          (case size_at enc_out (- 1) of
             Inl e \<Rightarrow> Inl e
           | Inr depth \<Rightarrow> Inr (map (init_layer_cache batch depth) layers)))"

text \<open>The branch \<open>step is None\<close> of \<open>forward\<close>, for one layer.\<close>

definition disable_layer_cache :: "'w decoder_layer \<Rightarrow> 'w decoder_layer" where
  "disable_layer_cache layer =
     layer\<lparr>self_attn_cache :=
             (if self_attn_kind layer = Average
              then (False, PrevG empty_tensor)
              else (False, KeysValues empty_tensor empty_tensor)),
           context_attn_cache := (False, KeysValues empty_tensor empty_tensor)\<rparr>"

text \<open>
  The lines of \<open>forward\<close> between reading \<open>step\<close> and the loop over the layers:
  \<open>step == 0\<close> initialises the caches, \<open>step is None\<close> disables them, any other
  step touches nothing.
\<close>

definition prepare_caches ::
  "int option \<Rightarrow> tensor \<Rightarrow> 'w decoder_layer list \<Rightarrow> py_error + 'w decoder_layer list" where
  "prepare_caches step enc_out layers =
     (if step = Some 0 then init_cache enc_out layers
      else if step = None then Inr (map disable_layer_cache layers)
      else Inr layers)"

text \<open>
  The call \<open>layer(emb, enc_out, src_pad_mask, tgt_pad_mask, step=..., with_align=...,
  return_attn=...)\<close> runs \<open>TransformerDecoderLayerBase.forward\<close> and the attention
  modules, which are defined in other modules of the repository.  It is a parameter \<open>call\<close>: from
  the layer and the arguments to the triple \<open>(emb, attn, attn_align)\<close> it returns and
  the layer with the caches as the call leaves them.  \<open>layer_norm\<close> and
  \<open>alignment_layer\<close> are parameters too.
\<close>

type_synonym 'w layer_call =
  "'w decoder_layer \<Rightarrow> tensor \<Rightarrow> tensor \<Rightarrow> tensor \<Rightarrow> tensor \<Rightarrow> int option \<Rightarrow> bool \<Rightarrow> bool
     \<Rightarrow> (tensor \<times> tensor option \<times> tensor option) \<times> 'w decoder_layer"

text \<open>
  The loop over the layers: \<open>attn\<close> is bound by the first pass (\<open>Unset\<close> before),
  \<open>attn_aligns\<close> collects the alignments that are not \<open>None\<close>.
\<close>

fun run_layers ::
  "'w layer_call \<Rightarrow> tensor \<Rightarrow> tensor \<Rightarrow> tensor \<Rightarrow> int option \<Rightarrow> bool \<Rightarrow> bool
     \<Rightarrow> 'w decoder_layer list \<Rightarrow> tensor \<Rightarrow> tensor option attr \<Rightarrow> tensor list
     \<Rightarrow> tensor \<times> tensor option attr \<times> tensor list \<times> 'w decoder_layer list" where
  "run_layers call enc_out src_pad_mask tgt_pad_mask step with_align return_attn [] emb attn aligns =
     (emb, attn, aligns, [])"
| "run_layers call enc_out src_pad_mask tgt_pad_mask step with_align return_attn (layer # rest)
      emb attn aligns =
     (let ((emb', attn', attn_align), layer') =
            call layer emb enc_out src_pad_mask tgt_pad_mask step with_align return_attn;
          aligns' = (case attn_align of None \<Rightarrow> aligns | Some al \<Rightarrow> aligns @ [al]);
          (emb'', attn'', aligns'', rest') =
            run_layers call enc_out src_pad_mask tgt_pad_mask step with_align return_attn rest
              emb' (Assigned attn') aligns'
      in (emb'', attn'', aligns'', layer' # rest'))"

text \<open>The dict \<open>attns\<close> that \<open>forward\<close> returns.\<close>

record attns =
  std :: "tensor option"
  align :: "tensor option"

text \<open>
  \<open>TransformerDecoder.forward\<close>.  The assertions come before any cache is written.  An
  error after that leaves the layers as they are at the raise: reading \<open>attn\<close> when
  there is no layer (\<open>UnboundLocalError\<close>) and
  \<open>attn_aligns[self.alignment_layer]\<close> outside the list.
\<close>

definition forward ::
  "'w layer_call \<Rightarrow> (tensor \<Rightarrow> tensor) \<Rightarrow> int \<Rightarrow> 'w decoder_layer list \<Rightarrow> tensor
     \<Rightarrow> tensor option \<Rightarrow> tensor option \<Rightarrow> tensor option \<Rightarrow> int option \<Rightarrow> bool \<Rightarrow> bool
     \<Rightarrow> (py_error \<times> 'w decoder_layer list) + ((tensor \<times> attns) \<times> 'w decoder_layer list)" where
  "forward call layer_norm alignment_layer layers emb enc_out_arg tgt_pad_mask_arg src_pad_mask_arg
      step with_align return_attn_arg =
     (if dim emb \<noteq> 3 then Inl (AssertionError, layers)
      else case tgt_pad_mask_arg of
        None \<Rightarrow> Inl (AssertionError, layers)
      | Some tgt_pad_mask \<Rightarrow>
          (case src_pad_mask_arg of
             None \<Rightarrow> Inl (AssertionError, layers)
           | Some src_pad_mask \<Rightarrow>
               let enc_out = (case enc_out_arg of None \<Rightarrow> emb | Some e \<Rightarrow> e) in
               (case prepare_caches step enc_out layers of
                  Inl e \<Rightarrow> Inl (e, layers)
                | Inr layers1 \<Rightarrow>
                    let return_attn = (with_align \<or> return_attn_arg);
                        (emb', attn, attn_aligns, layers2) =
                          run_layers call enc_out src_pad_mask tgt_pad_mask step with_align
                            return_attn layers1 emb Unset []
                    in (case attn of
                          Unset \<Rightarrow> Inl (UnboundLocalError, layers2)
                        | Assigned a \<Rightarrow>
                            if with_align then
                              (case list_get attn_aligns alignment_layer of
                                 Inl e \<Rightarrow> Inl (e, layers2)
                               | Inr al \<Rightarrow>
                                   Inr ((layer_norm emb', \<lparr>std = a, align = Some al\<rparr>), layers2))
                            else Inr ((layer_norm emb', \<lparr>std = a, align = None\<rparr>), layers2)))))"

text \<open>
  Modelled from the spec: \<open>MultiHeadedAttention.forward\<close> and
  \<open>TransformerDecoderLayerBase.forward\<close> are not among the source files.  Section 4.1 of the
  specification says that the cross-attention cache is derived once from the fixed
  encoder output and persists unchanged across steps, and that without a step index the
  caches are not used.  \<open>derive\<close> stands for the projection of the encoder output to
  keys and values by the weights of the layer.  An active cache that holds no key yet is
  filled from the encoder output; any other cache is left as it is.
\<close>

definition context_attn_cache_step ::
  "('w \<Rightarrow> tensor \<Rightarrow> tensor \<times> tensor) \<Rightarrow> 'w \<Rightarrow> tensor \<Rightarrow> layer_cache \<Rightarrow> layer_cache" where
  "context_attn_cache_step derive w enc_out c =
     (case c of
        (True, KeysValues k v) \<Rightarrow>
          if numel k = 0 then (True, KeysValues (fst (derive w enc_out)) (snd (derive w enc_out)))
          else c
      | _ \<Rightarrow> c)"

text \<open>
  Modelled from the spec: a layer call that does to the cross-attention cache what
  \<open>context_attn_cache_step\<close> says and passes everything else through.  It is used as
  an instance of the parameter \<open>call\<close> only.
\<close>

definition spec_layer_call :: "('w \<Rightarrow> tensor \<Rightarrow> tensor \<times> tensor) \<Rightarrow> 'w layer_call" where
  "spec_layer_call derive layer emb enc_out src_pad_mask tgt_pad_mask step with_align return_attn =
     ((emb, None, None),
      layer\<lparr>context_attn_cache :=
              context_attn_cache_step derive (weights layer) enc_out (context_attn_cache layer)\<rparr>)"

text \<open>
  What is assumed of a layer call in place of the attention module: on the
  cross-attention cache it acts as \<open>context_attn_cache_step\<close>.
\<close>

definition context_cache_as_spec ::
  "'w layer_call \<Rightarrow> ('w \<Rightarrow> tensor \<Rightarrow> tensor \<times> tensor) \<Rightarrow> bool" where
  "context_cache_as_spec call derive \<longleftrightarrow>
     (\<forall>layer emb enc_out src_pad_mask tgt_pad_mask step with_align return_attn.
        context_attn_cache
          (snd (call layer emb enc_out src_pad_mask tgt_pad_mask step with_align return_attn))
        = context_attn_cache_step derive (weights layer) enc_out (context_attn_cache layer))"

text \<open>The layers that a call of \<open>forward\<close> leaves, whether it returns or raises.\<close>

definition layers_after ::
  "(py_error \<times> 'w decoder_layer list) + ((tensor \<times> attns) \<times> 'w decoder_layer list)
     \<Rightarrow> 'w decoder_layer list" where
  "layers_after r = (case r of Inl (e, ls) \<Rightarrow> ls | Inr (out, ls) \<Rightarrow> ls)"

section \<open>Concrete decode states\<close>

text \<open>
  The vocabulary of the running example is \<open>pad = 0\<close>, \<open>bos = 1\<close>, \<open>eos = 2\<close>,
  \<open>unk = 3\<close> and two words \<open>4\<close> and \<open>5\<close>; one batch item is decoded along two
  parallel paths with \<open>max_length = 3\<close>.
\<close>

definition demo_object :: decode_state where
  "demo_object =
     \<lparr>pad = 0, bos = 1, eos = [2], unk = 3, start = 1, batch_size = 1, parallel_paths = 2,
      predictions = [[]], scores = [[]], attention = [[]], hypotheses = [[]],
      min_length = 0, max_length = 3, ban_unk_token = False, block_ngram_repeat = 0,
      forbidden_tokens = [0, 1], exclusion_tokens = {}, return_attention = False,
      is_done = False, alive_seq = Unset, is_finished_list = Unset,
      target_prefix = Unset, select_indices = Unset\<rparr>"

definition demo_store :: store where
  "demo_store = \<lparr>dicts = (\<lambda>_. []), sets = (\<lambda>_. {}), fresh = 2\<rparr>"

definition demo_started :: decode_state where
  "demo_started = demo_object
     \<lparr>alive_seq := Assigned \<lparr>ncols = 1, rows = [[1], [1]]\<rparr>,
      is_finished_list := Assigned [[False, False]],
      target_prefix := Assigned None\<rparr>"

definition demo_at_max :: decode_state where
  "demo_at_max = demo_object
     \<lparr>alive_seq := Assigned \<lparr>ncols = 4, rows = [[1, 4, 4, 4], [1, 4, 4, 5]]\<rparr>,
      is_finished_list := Assigned [[False, False]],
      target_prefix := Assigned None\<rparr>"

definition demo_scores :: "real tensor2" where
  "demo_scores =
     \<lparr>ncols = 6, rows = [[- 1, - 2, - 3, - 4, - 5, - 6], [- 6, - 5, - 4, - 3, - 2, - 1]]\<rparr>"

definition demo_prefix :: "int tensor2" where
  "demo_prefix = \<lparr>ncols = 4, rows = [[1, 4, 5, 2], [1, 5, 0, 0]]\<rparr>"



text \<open>
  A run with \<open>block_ngram_repeat = 2\<close>: the state and the store after the first token is
  selected and recorded, and the state after the second selection, where both paths
  continue the first one (\<open>select_indices = [0, 0]\<close>).
\<close>

definition bigram_object :: decode_state where
  "bigram_object = demo_object\<lparr>block_ngram_repeat := 2\<rparr>"

definition bigram_step1 :: decode_state where
  "bigram_step1 = bigram_object
     \<lparr>alive_seq := Assigned \<lparr>ncols = 2, rows = [[1, 4], [1, 5]]\<rparr>,
      is_finished_list := Assigned [[False, False]], target_prefix := Assigned None,
      select_indices := Assigned [0, 1]\<rparr>"

definition bigram_store1 :: store where
  "bigram_store1 =
     \<lparr>dicts = (\<lambda>_. [])(2 := [([1], 3)], 4 := [([1], 5)]),
      sets = (\<lambda>_. {})(3 := {4}, 5 := {5}),
      fresh = 6\<rparr>"

definition bigram_step2 :: decode_state where
  "bigram_step2 = bigram_step1
     \<lparr>forbidden_tokens := [2, 4],
      alive_seq := Assigned \<lparr>ncols = 3, rows = [[1, 4, 5], [1, 4, 4]]\<rparr>,
      select_indices := Assigned [0, 0]\<rparr>"

text \<open>
  A run with \<open>block_ngram_repeat = 1\<close> on a single path: the object, the store the
  constructor leaves, the state after the token \<open>4\<close> is selected, and the store after
  that token is recorded.
\<close>

definition unigram_object :: decode_state where
  "unigram_object = demo_object
     \<lparr>parallel_paths := 1, block_ngram_repeat := 1, forbidden_tokens := [0]\<rparr>"

definition unigram_store0 :: store where
  "unigram_store0 = \<lparr>dicts = (\<lambda>_. []), sets = (\<lambda>_. {}), fresh = 1\<rparr>"

definition unigram_step1 :: decode_state where
  "unigram_step1 = unigram_object
     \<lparr>alive_seq := Assigned \<lparr>ncols = 2, rows = [[1, 4]]\<rparr>,
      is_finished_list := Assigned [[False]], target_prefix := Assigned None,
      select_indices := Assigned [0]\<rparr>"

definition unigram_store1 :: store where
  "unigram_store1 =
     \<lparr>dicts = (\<lambda>_. [])(1 := [([], 2)]), sets = (\<lambda>_. {})(2 := {4}), fresh = 3\<rparr>"

definition unigram_scores :: "real tensor2" where
  "unigram_scores = \<lparr>ncols = 6, rows = [[- 1, - 2, - 3, - 4, - 5, - 6]]\<rparr>"

text \<open>
  A decoder of two layers, one with multi-head and one with average self-attention, on
  two paths with hidden width three; the layers before decoding starts and as the first
  step leaves them when keys and values are the encoder output itself.
\<close>

definition demo_emb :: tensor where
  "demo_emb = \<lparr>shape = [2, 1, 3], elems = [1, 2, 3, 4, 5, 6]\<rparr>"

definition demo_enc :: tensor where
  "demo_enc = \<lparr>shape = [2, 2, 3], elems = [1, 2, 3, 4, 5, 6, 7, 8, 9, 10, 11, 12]\<rparr>"

definition demo_mask :: tensor where
  "demo_mask = \<lparr>shape = [2, 1, 1], elems = [0, 0]\<rparr>"

definition demo_derive :: "unit \<Rightarrow> tensor \<Rightarrow> tensor \<times> tensor" where
  "demo_derive w e = (e, e)"

definition demo_layers :: "unit decoder_layer list" where
  "demo_layers =
     [\<lparr>self_attn_kind = MultiHeaded,
       self_attn_cache = (False, KeysValues empty_tensor empty_tensor),
       context_attn_cache = (False, KeysValues empty_tensor empty_tensor), weights = ()\<rparr>,
      \<lparr>self_attn_kind = Average,
       self_attn_cache = (False, PrevG empty_tensor),
       context_attn_cache = (False, KeysValues empty_tensor empty_tensor), weights = ()\<rparr>]"

definition demo_layers_started :: "unit decoder_layer list" where
  "demo_layers_started =
     [\<lparr>self_attn_kind = MultiHeaded,
       self_attn_cache = (True, KeysValues empty_tensor empty_tensor),
       context_attn_cache = (True, KeysValues demo_enc demo_enc), weights = ()\<rparr>,
      \<lparr>self_attn_kind = Average,
       self_attn_cache = (True, PrevG \<lparr>shape = [2, 1, 3], elems = [0, 0, 0, 0, 0, 0]\<rparr>),
       context_attn_cache = (True, KeysValues demo_enc demo_enc), weights = ()\<rparr>]"







section \<open>Tensor and list helpers\<close>

lemma py_index_in_range: "0 \<le> j \<Longrightarrow> j < int n \<Longrightarrow> py_index n j = Some (nat j)"
  by (simp add: py_index_def)

lemma set_column_in_range:
  "0 \<le> j \<Longrightarrow> j < int (ncols t) \<Longrightarrow>
   set_column t j v = Inr (t\<lparr>rows := map (\<lambda>r. r[nat j := v]) (rows t)\<rparr>)"
  by (simp add: set_column_def py_index_in_range)

text \<open>
  Writing one value into several columns, all of them inside the tensor: the write
  succeeds, keeps the shape and changes exactly the listed columns.
\<close>

lemma set_columns_in_range:
  "wf_tensor t \<Longrightarrow> \<forall>j\<in>set js. 0 \<le> j \<and> j < int (ncols t) \<Longrightarrow>
   \<exists>t'. set_columns t js v = Inr t' \<and> ncols t' = ncols t \<and> nrows t' = nrows t \<and> wf_tensor t' \<and>
     (\<forall>i<nrows t. \<forall>c<ncols t.
        rows t' ! i ! c = (if int c \<in> set js then v else rows t ! i ! c))"
proof (induction js arbitrary: t)
  case Nil
  then show ?case by simp
next
  case (Cons j js)
  let ?t1 = "t\<lparr>rows := map (\<lambda>r. r[nat j := v]) (rows t)\<rparr>"
  from Cons.prems have j: "0 \<le> j" "j < int (ncols t)" by simp_all
  have step: "set_column t j v = Inr ?t1" using j by (rule set_column_in_range)
  have wf1: "wf_tensor ?t1" using Cons.prems(1)
    by (simp add: wf_tensor_def list_all_iff)
  have rest: "\<forall>j\<in>set js. 0 \<le> j \<and> j < int (ncols ?t1)" using Cons.prems(2) by simp
  from Cons.IH [OF wf1 rest] obtain t' where t':
    "set_columns ?t1 js v = Inr t'" "ncols t' = ncols ?t1" "nrows t' = nrows ?t1" "wf_tensor t'"
    "\<forall>i<nrows ?t1. \<forall>c<ncols ?t1. rows t' ! i ! c = (if int c \<in> set js then v else rows ?t1 ! i ! c)"
    by blast
  have pt: "rows t' ! i ! c = (if int c \<in> set (j # js) then v else rows t ! i ! c)"
    if "i < nrows t" "c < ncols t" for i c
  proof -
    have len: "length (rows t ! i) = ncols t"
      using Cons.prems(1) that(1) by (simp add: wf_tensor_def list_all_length nrows_def)
    have "rows ?t1 ! i ! c = (if c = nat j then v else rows t ! i ! c)"
      using that len by (simp add: nrows_def nth_list_update)
    moreover have "rows t' ! i ! c = (if int c \<in> set js then v else rows ?t1 ! i ! c)"
      using t'(5) that by (simp add: nrows_def)
    moreover have "(c = nat j) = (int c = j)" using j by auto
    ultimately show ?thesis by auto
  qed
  show ?case using step t' pt by (simp add: nrows_def)
qed

lemma py_max_Max: "xs \<noteq> [] \<Longrightarrow> py_max xs = Inr (Max (set xs))"
  by (cases xs) (simp_all add: py_max_def Max.set_eq_fold [symmetric])

lemma py_min_Min: "xs \<noteq> [] \<Longrightarrow> py_min xs = Inr (Min (set xs))"
  by (cases xs) (simp_all add: py_min_def Min.set_eq_fold [symmetric])

section \<open>The running example is what the constructor and \<open>initialize\<close> build\<close>

lemma demo_object_constructed:
  "DecodeStrategy_init empty_store 0 1 (EosInt 2) 3 1 1 2 0 0 {} False 3 False
     = Inr (demo_object, demo_store)"
  by (simp add: DecodeStrategy_init_def demo_object_def demo_store_def empty_store_def
      new_dict_def eval_nat_numeral fun_eq_iff)

lemma demo_started_initialized: "initialize demo_object None = Inr demo_started"
  by (simp add: initialize_def demo_object_def demo_started_def full_def eval_nat_numeral)

section \<open>Forced termination at the maximum length\<close>

text \<open>
  Claim C1.  When the alive sequences have \<open>max_length + 1\<close> columns (the start token
  and \<open>max_length\<close> tokens), \<open>ensure_max_length\<close> replaces the finished flags by one row
  per batch item of \<open>parallel_paths\<close> flags, all true, and changes nothing else.  The
  tokens of the sequences, the last selected one among them, play no part, and neither do
  the settings of the other constraints (\<open>min_length\<close>, \<open>ban_unk_token\<close>,
  \<open>block_ngram_repeat\<close>, the forced prefix): the statement holds for every state.
  A second call in the resulting state returns that state again.
\<close>

theorem ensure_max_length_forces_finish:
  assumes "alive_seq s = Assigned a" and "is_finished_list s = Assigned fl"
    and "int (ncols a) = max_length s + 1"
  shows "\<exists>s'. ensure_max_length s = Inr s' \<and>
           s' = s\<lparr>is_finished_list :=
                    Assigned (replicate (length fl) (replicate (nat (parallel_paths s)) True))\<rparr> \<and>
           ensure_max_length s' = Inr s'"
  using assms by (simp add: ensure_max_length_def len_def)

theorem ensure_max_length_forces_finish_witness:
  "ensure_max_length demo_at_max = Inr (demo_at_max\<lparr>is_finished_list := Assigned [[True, True]]\<rparr>) \<and>
   ensure_max_length (demo_at_max\<lparr>is_finished_list := Assigned [[True, True]]\<rparr>)
     = Inr (demo_at_max\<lparr>is_finished_list := Assigned [[True, True]]\<rparr>)"
  using ensure_max_length_forces_finish
    [of demo_at_max "\<lparr>ncols = 4, rows = [[1, 4, 4, 4], [1, 4, 4, 5]]\<rparr>" "[[False, False]]"]
  by (simp add: demo_at_max_def demo_object_def eval_nat_numeral)

section \<open>The constructor checks no length bound\<close>

text \<open>
  Claim C5 says that the constructor rejects a \<open>max_length\<close> that is zero or negative
  and a \<open>min_length\<close> above \<open>max_length\<close>.  \<open>__init__\<close> has no check at all: with
  \<open>max_length = -1\<close>, with \<open>max_length = 0\<close>, and with \<open>min_length = 5\<close> above
  \<open>max_length = 3\<close> it returns an object.
\<close>

theorem init_rejects_counterexample:
  "\<not> isl (DecodeStrategy_init empty_store 0 1 (EosInt 2) 3 1 1 2 0 0 {} False (- 1) False) \<and>
   \<not> isl (DecodeStrategy_init empty_store 0 1 (EosInt 2) 3 1 1 2 0 0 {} False 0 False) \<and>
   \<not> isl (DecodeStrategy_init empty_store 0 1 (EosInt 2) 3 1 1 2 5 0 {} False 3 False)"
  by (simp add: DecodeStrategy_init_def split: prod.splits)

text \<open>
  Claim C5, amended.  Constructing a \<open>DecodeStrategy\<close> never fails on its length
  bounds: for every \<open>min_length\<close> and \<open>max_length\<close> the constructor returns an object
  that stores both as given.
\<close>

theorem init_accepts_any_lengths:
  "\<exists>s h'. DecodeStrategy_init h pd bs es uk st b p mn k ex ra mx bu = Inr (s, h') \<and>
          max_length s = mx \<and> min_length s = mn"
  by (simp add: DecodeStrategy_init_def split: prod.splits)

section \<open>Minimum length\<close>

text \<open>
  Claim C8.  The terminal ids are vocabulary indices (\<open>0 \<le> e < vocab_size\<close>).  While
  the alive sequences have at most \<open>min_length\<close> columns, \<open>ensure_min_length\<close> writes
  \<open>-65504\<close> into the column of every terminal id, in every row, and leaves every other
  entry as it was; when they have more columns it returns the scores unchanged.  A
  constructor called with a single integer \<open>eos\<close> stores the one-element list.
\<close>

theorem ensure_min_length_masks_eos:
  assumes "alive_seq s = Assigned a" and "wf_tensor log_probs"
    and "\<forall>e\<in>set (eos s). 0 \<le> e \<and> e < int (ncols log_probs)"
  shows "(int (ncols a) \<le> min_length s \<longrightarrow>
           (\<exists>lp'. ensure_min_length s log_probs = Inr lp' \<and>
              ncols lp' = ncols log_probs \<and> nrows lp' = nrows log_probs \<and> wf_tensor lp' \<and>
              (\<forall>i<nrows log_probs. \<forall>t<ncols log_probs.
                 rows lp' ! i ! t =
                   (if int t \<in> set (eos s) then - 65504 else rows log_probs ! i ! t)))) \<and>
         (min_length s < int (ncols a) \<longrightarrow> ensure_min_length s log_probs = Inr log_probs) \<and>
         (\<exists>s0 h'. DecodeStrategy_init h pd bs (EosInt e) uk st b p mn k ex ra mx bu = Inr (s0, h') \<and>
                   eos s0 = [e])"
proof -
  have A: "int (ncols a) \<le> min_length s \<longrightarrow>
           (\<exists>lp'. ensure_min_length s log_probs = Inr lp' \<and>
              ncols lp' = ncols log_probs \<and> nrows lp' = nrows log_probs \<and> wf_tensor lp' \<and>
              (\<forall>i<nrows log_probs. \<forall>t<ncols log_probs.
                 rows lp' ! i ! t =
                   (if int t \<in> set (eos s) then - 65504 else rows log_probs ! i ! t)))"
    using set_columns_in_range [OF assms(2) assms(3), of "- 65504"] assms(1)
    by (simp add: ensure_min_length_def len_def)
  have B: "min_length s < int (ncols a) \<longrightarrow> ensure_min_length s log_probs = Inr log_probs"
    using assms(1) by (simp add: ensure_min_length_def len_def)
  have C: "\<exists>s0 h'. DecodeStrategy_init h pd bs (EosInt e) uk st b p mn k ex ra mx bu = Inr (s0, h') \<and>
                   eos s0 = [e]"
    by (simp add: DecodeStrategy_init_def split: prod.splits)
  from A B C show ?thesis by blast
qed

theorem ensure_min_length_masks_eos_witness:
  "\<exists>lp'. ensure_min_length (demo_started\<lparr>min_length := 1\<rparr>) demo_scores = Inr lp' \<and>
      rows lp' ! 0 ! 2 = - 65504 \<and> rows lp' ! 1 ! 2 = - 65504 \<and>
      rows lp' ! 0 ! 4 = - 5 \<and> rows lp' ! 1 ! 4 = - 2"
proof -
  let ?s = "demo_started\<lparr>min_length := 1\<rparr>"
  have h1: "alive_seq ?s = Assigned \<lparr>ncols = 1, rows = [[1], [1]]\<rparr>"
    by (simp add: demo_started_def)
  have h2: "wf_tensor demo_scores" by (simp add: wf_tensor_def demo_scores_def)
  have h3: "\<forall>e\<in>set (eos ?s). 0 \<le> e \<and> e < int (ncols demo_scores)"
    by (simp add: demo_started_def demo_object_def demo_scores_def)
  have le: "int (ncols \<lparr>ncols = 1, rows = [[1::int], [1]]\<rparr>) \<le> min_length ?s" by simp
  from ensure_min_length_masks_eos [OF h1 h2 h3] le
  obtain lp' where lp': "ensure_min_length ?s demo_scores = Inr lp'"
    and pt: "\<forall>i<nrows demo_scores. \<forall>t<ncols demo_scores.
                 rows lp' ! i ! t =
                   (if int t \<in> set (eos ?s) then - 65504 else rows demo_scores ! i ! t)"
    by blast
  have n: "nrows demo_scores = 2" "ncols demo_scores = 6"
    by (simp_all add: nrows_def demo_scores_def)
  have e: "eos ?s = [2]" by (simp add: demo_started_def demo_object_def)
  have "rows lp' ! 0 ! 2 = - 65504" using pt n e by simp
  moreover have "rows lp' ! 1 ! 2 = - 65504" using pt n e by simp
  moreover have "rows lp' ! 0 ! 4 = - 5" using pt n e by (simp add: demo_scores_def)
  moreover have "rows lp' ! 1 ! 4 = - 2" using pt n e by (simp add: demo_scores_def)
  ultimately show ?thesis using lp' by blast
qed

section \<open>\<open>initialize\<close>\<close>

text \<open>
  Claim C9.  With a path count \<open>batch_size * parallel_paths\<close> that is not negative,
  \<open>initialize\<close> without a prefix sets \<open>alive_seq\<close> to one column holding the start
  token in each of the \<open>batch_size * parallel_paths\<close> rows and every finished flag to
  false, and leaves both length bounds alone.  With a prefix of that many rows (at least
  one) it does the same, stores the prefix without its first column, and adds to
  \<open>max_length\<close> the largest per-row count of non-pad tokens of the stored prefix minus
  one, and to \<open>min_length\<close> the smallest such count minus one.
\<close>

theorem initialize_start_state:
  assumes "0 \<le> batch_size s * parallel_paths s"
  shows "(\<exists>s'. initialize s None = Inr s' \<and>
            alive_seq s' = Assigned \<lparr>ncols = 1,
               rows = replicate (nat (batch_size s * parallel_paths s)) [start s]\<rparr> \<and>
            is_finished_list s' = Assigned (replicate (nat (batch_size s))
                                     (replicate (nat (parallel_paths s)) False)) \<and>
            target_prefix s' = Assigned None \<and>
            max_length s' = max_length s \<and> min_length s' = min_length s) \<and>
         (int (nrows tp) = batch_size s * parallel_paths s \<and> 0 < nrows tp \<longrightarrow>
           (\<exists>s'. initialize s (Some tp) = Inr s' \<and>
              alive_seq s' = Assigned \<lparr>ncols = 1,
                 rows = replicate (nat (batch_size s * parallel_paths s)) [start s]\<rparr> \<and>
              is_finished_list s' = Assigned (replicate (nat (batch_size s))
                                       (replicate (nat (parallel_paths s)) False)) \<and>
              target_prefix s' = Assigned (Some (drop_first_column tp)) \<and>
              max_length s' = max_length s +
                 (Max (set (prefix_non_pad (pad s) (drop_first_column tp))) - 1) \<and>
              min_length s' = min_length s +
                 (Min (set (prefix_non_pad (pad s) (drop_first_column tp))) - 1)))"
proof -
  have A: "\<exists>s'. initialize s None = Inr s' \<and>
            alive_seq s' = Assigned \<lparr>ncols = 1,
               rows = replicate (nat (batch_size s * parallel_paths s)) [start s]\<rparr> \<and>
            is_finished_list s' = Assigned (replicate (nat (batch_size s))
                                     (replicate (nat (parallel_paths s)) False)) \<and>
            target_prefix s' = Assigned None \<and>
            max_length s' = max_length s \<and> min_length s' = min_length s"
    using assms by (simp add: initialize_def full_def)
  have B: "\<exists>s'. initialize s (Some tp) = Inr s' \<and>
              alive_seq s' = Assigned \<lparr>ncols = 1,
                 rows = replicate (nat (batch_size s * parallel_paths s)) [start s]\<rparr> \<and>
              is_finished_list s' = Assigned (replicate (nat (batch_size s))
                                       (replicate (nat (parallel_paths s)) False)) \<and>
              target_prefix s' = Assigned (Some (drop_first_column tp)) \<and>
              max_length s' = max_length s +
                 (Max (set (prefix_non_pad (pad s) (drop_first_column tp))) - 1) \<and>
              min_length s' = min_length s +
                 (Min (set (prefix_non_pad (pad s) (drop_first_column tp))) - 1)"
    if eq: "int (nrows tp) = batch_size s * parallel_paths s" and pos: "0 < nrows tp"
  proof -
    have ne: "prefix_non_pad (pad s) (drop_first_column tp) \<noteq> []"
      using pos by (simp add: prefix_non_pad_def drop_first_column_def nrows_def)
    show ?thesis
      using assms eq py_max_Max [OF ne] py_min_Min [OF ne]
      by (simp add: initialize_def full_def Let_def)
  qed
  from A B show ?thesis by blast
qed

theorem initialize_start_state_witness:
  "initialize demo_object None = Inr demo_started \<and>
   initialize demo_object (Some demo_prefix)
     = Inr (demo_started\<lparr>target_prefix := Assigned (Some \<lparr>ncols = 3, rows = [[4, 5, 2], [5, 0, 0]]\<rparr>),
                         max_length := 5, min_length := 0\<rparr>)"
proof -
  have h: "0 \<le> batch_size demo_object * parallel_paths demo_object"
    by (simp add: demo_object_def)
  have r: "int (nrows demo_prefix) = batch_size demo_object * parallel_paths demo_object \<and>
           0 < nrows demo_prefix"
    by (simp add: demo_object_def demo_prefix_def nrows_def)
  have c: "prefix_non_pad (pad demo_object) (drop_first_column demo_prefix) = [3, 1]"
    by (simp add: prefix_non_pad_def drop_first_column_def demo_prefix_def demo_object_def)
  from initialize_start_state [OF h, of demo_prefix] r c
  obtain s' where s': "initialize demo_object (Some demo_prefix) = Inr s'"
    and "max_length s' = max_length demo_object + (Max (set [3, 1]) - 1)"
    and "min_length s' = min_length demo_object + (Min (set [3, 1]) - 1)"
    by auto
  then have "max_length s' = 5" "min_length s' = 0" by (simp_all add: demo_object_def)
  have "initialize demo_object (Some demo_prefix)
     = Inr (demo_started\<lparr>target_prefix := Assigned (Some \<lparr>ncols = 3, rows = [[4, 5, 2], [5, 0, 0]]\<rparr>),
                         max_length := 5, min_length := 0\<rparr>)"
    by (simp add: initialize_def demo_object_def demo_started_def demo_prefix_def full_def
        nrows_def drop_first_column_def prefix_non_pad_def py_max_def py_min_def eval_nat_numeral)
  then show ?thesis using demo_started_initialized by simp
qed

text \<open>
  Claim C10.  A prefix whose row count differs from \<open>batch_size * parallel_paths\<close>
  makes \<open>initialize\<close> fail; the failure is the assertion whenever the path count is not
  negative (with a negative one \<open>torch.full\<close> has raised before).  The state at the
  failure has the prefix attribute and both length bounds of the state before the call.
\<close>

theorem initialize_rejects_untiled_prefix:
  assumes "int (nrows tp) \<noteq> batch_size s * parallel_paths s"
  shows "\<exists>e s'. initialize s (Some tp) = Inl (e, s') \<and>
           (0 \<le> batch_size s * parallel_paths s \<longrightarrow> e = AssertionError) \<and>
           target_prefix s' = target_prefix s \<and>
           max_length s' = max_length s \<and> min_length s' = min_length s"
  using assms by (simp add: initialize_def Let_def)

theorem initialize_rejects_untiled_prefix_witness:
  "initialize demo_object (Some \<lparr>ncols = 4, rows = [[1, 4, 5, 2]]\<rparr>)
     = Inl (AssertionError, demo_object
         \<lparr>alive_seq := Assigned \<lparr>ncols = 1, rows = [[1], [1]]\<rparr>,
          is_finished_list := Assigned [[False, False]]\<rparr>)"
proof -
  have h: "int (nrows \<lparr>ncols = 4, rows = [[1::int, 4, 5, 2]]\<rparr>)
             \<noteq> batch_size demo_object * parallel_paths demo_object"
    by (simp add: nrows_def demo_object_def)
  from initialize_rejects_untiled_prefix [OF h]
  obtain e s' where "initialize demo_object (Some \<lparr>ncols = 4, rows = [[1, 4, 5, 2]]\<rparr>) = Inl (e, s')"
    by blast
  then show ?thesis
    by (simp add: initialize_def demo_object_def full_def nrows_def eval_nat_numeral)
qed

section \<open>Forced prefix\<close>















section \<open>The store: copies and frames\<close>

lemma map_of_in_snd: "map_of xs k = Some b \<Longrightarrow> b \<in> snd ` set xs"
  by (induction xs) (auto split: if_splits)

lemma copy_items_spec:
  assumes "\<forall>a\<in>snd ` set xs. a < fresh h" and "distinct (map snd xs)"
    and "\<forall>a\<in>snd ` set xs. map_of memo a = None"
  shows "\<exists>ys h'. copy_items xs memo h = (ys, h') \<and>
           map fst ys = map fst xs \<and>
           snd ` set ys \<subseteq> {fresh h..<fresh h + length xs} \<and> distinct (map snd ys) \<and>
           fresh h' = fresh h + length xs \<and>
           dicts h' = dicts h \<and>
           (\<forall>x<fresh h. sets h' x = sets h x) \<and>
           (\<forall>k. map_option (sets h') (map_of ys k) = map_option (sets h) (map_of xs k))"
  using assms
proof (induction xs arbitrary: memo h)
  case Nil
  then show ?case by simp
next
  case (Cons p xs)
  obtain key a where p: "p = (key, a)" by (cases p)
  define h1 where "h1 = h\<lparr>sets := (sets h)(fresh h := sets h a), fresh := Suc (fresh h)\<rparr>"
  have miss: "map_of memo a = None" using Cons.prems(3) p by simp
  have a_old: "a < fresh h" using Cons.prems(1) p by simp
  have old1: "\<forall>b\<in>snd ` set xs. b < fresh h1" using Cons.prems(1) by (auto simp: h1_def)
  have d1: "distinct (map snd xs)" using Cons.prems(2) by simp
  have m1: "\<forall>b\<in>snd ` set xs. map_of ((a, fresh h) # memo) b = None"
    using Cons.prems(2,3) p by auto
  from Cons.IH [OF old1 d1 m1] obtain ys h' where ih:
    "copy_items xs ((a, fresh h) # memo) h1 = (ys, h')"
    "map fst ys = map fst xs"
    "snd ` set ys \<subseteq> {fresh h1..<fresh h1 + length xs} \<and> distinct (map snd ys)"
    "fresh h' = fresh h1 + length xs"
    "dicts h' = dicts h1"
    "\<forall>x<fresh h1. sets h' x = sets h1 x"
    "\<forall>k. map_option (sets h') (map_of ys k) = map_option (sets h1) (map_of xs k)"
    by blast
  have res: "copy_items (p # xs) memo h = ((key, fresh h) # ys, h')"
    using miss ih(1) by (simp add: p new_set_def h1_def)
  have f1: "fresh h1 = Suc (fresh h)" by (simp add: h1_def)
  have snd_eq: "snd ` set ((key, fresh h) # ys) \<subseteq> {fresh h..<fresh h + length (p # xs)} \<and>
                distinct (map snd ((key, fresh h) # ys))"
    using ih(3) f1 by auto
  have frame: "\<forall>x<fresh h. sets h' x = sets h x"
    using ih(6) f1 by (simp add: h1_def)
  have content: "map_option (sets h') (map_of ((key, fresh h) # ys) k)
                   = map_option (sets h) (map_of (p # xs) k)" for k
  proof (cases "k = key")
    case True
    have "sets h' (fresh h) = sets h1 (fresh h)" using ih(6) f1 by simp
    then show ?thesis using True by (simp add: p h1_def)
  next
    case False
    have "map_option (sets h1) (map_of xs k) = map_option (sets h) (map_of xs k)"
    proof (cases "map_of xs k")
      case None
      then show ?thesis by simp
    next
      case (Some b)
      then have "b < fresh h" using Cons.prems(1) map_of_in_snd [OF Some] by auto
      then show ?thesis using Some by (simp add: h1_def)
    qed
    then show ?thesis using False ih(7) by (simp add: p)
  qed
  show ?case
    using res ih(2) snd_eq ih(4) ih(5) frame content f1
    by (simp add: p h1_def)
qed

text \<open>
  \<open>deepcopy\<close> of a table returns a new dict at the first free address; its keys are
  those of the original, its set objects are new, and it says what the original says.
  No object allocated before is changed.
\<close>

lemma deepcopy_dict_spec:
  assumes "wf_table h d"
  shows "\<exists>h'. deepcopy_dict d h = (fresh h, h') \<and>
           fresh h < fresh h' \<and>
           (\<forall>x. x \<noteq> fresh h \<longrightarrow> dicts h' x = dicts h x) \<and>
           (\<forall>x<fresh h. sets h' x = sets h x) \<and>
           map fst (dicts h' (fresh h)) = map fst (dicts h d) \<and>
           table_sets h' (fresh h) \<subseteq> {fresh h..<fresh h'} \<and>
           distinct (map snd (dicts h' (fresh h))) \<and>
           table_of h' (fresh h) = table_of h d"
proof -
  define h1 where "h1 = h\<lparr>dicts := (dicts h)(fresh h := []), fresh := Suc (fresh h)\<rparr>"
  have dwf: "d < fresh h" "\<forall>a\<in>snd ` set (dicts h d). a < fresh h" "distinct (map snd (dicts h d))"
    using assms by (simp_all add: wf_table_def table_sets_def)
  have old1: "\<forall>a\<in>snd ` set (dicts h d). a < fresh h1" using dwf(2) by (auto simp: h1_def)
  have memo: "\<forall>a\<in>snd ` set (dicts h d). map_of ([] :: (addr \<times> addr) list) a = None" by simp
  from copy_items_spec [OF old1 dwf(3) memo] obtain ys h2 where c:
    "copy_items (dicts h d) [] h1 = (ys, h2)"
    "map fst ys = map fst (dicts h d)"
    "snd ` set ys \<subseteq> {fresh h1..<fresh h1 + length (dicts h d)} \<and> distinct (map snd ys)"
    "fresh h2 = fresh h1 + length (dicts h d)"
    "dicts h2 = dicts h1"
    "\<forall>x<fresh h1. sets h2 x = sets h1 x"
    "\<forall>k. map_option (sets h2) (map_of ys k) = map_option (sets h1) (map_of (dicts h d) k)"
    by blast
  define h' where "h' = h2\<lparr>dicts := (dicts h2)(fresh h := ys)\<rparr>"
  have f1: "fresh h1 = Suc (fresh h)" "sets h1 = sets h" by (simp_all add: h1_def)
  have res: "deepcopy_dict d h = (fresh h, h')"
    using c(1) by (simp add: deepcopy_dict_def new_dict_def h1_def h'_def)
  have "fresh h < fresh h'" using c(4) f1 by (simp add: h'_def)
  moreover have "\<forall>x. x \<noteq> fresh h \<longrightarrow> dicts h' x = dicts h x"
    using c(5) by (simp add: h'_def h1_def)
  moreover have "\<forall>x<fresh h. sets h' x = sets h x"
    using c(6) f1 by (simp add: h'_def)
  moreover have "map fst (dicts h' (fresh h)) = map fst (dicts h d)"
    using c(2) by (simp add: h'_def)
  moreover have "table_sets h' (fresh h) \<subseteq> {fresh h..<fresh h'}"
    using c(3) c(4) f1 by (auto simp: h'_def table_sets_def)
  moreover have "distinct (map snd (dicts h' (fresh h)))"
    using c(3) by (simp add: h'_def)
  moreover have "table_of h' (fresh h) = table_of h d"
    using c(7) f1 by (simp add: table_of_def h'_def fun_eq_iff)
  ultimately show ?thesis using res by blast
qed

text \<open>
  One pass of the loop body: the table appended is a new one, made of new objects, and
  says what the copied table says, extended by the n-gram of the sequence.
\<close>

lemma map_of_distinct_snd:
  "distinct (map snd xs) \<Longrightarrow> map_of xs k = Some b \<Longrightarrow> map_of xs k' = Some b \<Longrightarrow> k = k'"
proof (induction xs)
  case Nil
  then show ?case by simp
next
  case (Cons p xs)
  then show ?case
    by (cases p) (auto split: if_splits dest: map_of_in_snd)
qed

lemma update_path_spec:
  assumes wf: "wf_table h d" and ne: "last_n n seq \<noteq> []"
  shows "\<exists>h'. update_path n excl d seq h = Inr (fresh h, h') \<and>
           fresh h < fresh h' \<and>
           (\<forall>x<fresh h. dicts h' x = dicts h x \<and> sets h' x = sets h x) \<and>
           wf_table h' (fresh h) \<and>
           table_sets h' (fresh h) \<subseteq> {fresh h..<fresh h'} \<and>
           table_of h' (fresh h) = extend_table excl (last_n n seq) (table_of h d)"
proof -
  define g where "g = last_n n seq"
  define key where "key = butlast g"
  define d' where "d' = fresh h"
  from deepcopy_dict_spec [OF wf] obtain h1 where c:
    "deepcopy_dict d h = (d', h1)"
    "fresh h < fresh h1"
    "\<forall>x. x \<noteq> d' \<longrightarrow> dicts h1 x = dicts h x"
    "\<forall>x<fresh h. sets h1 x = sets h x"
    "map fst (dicts h1 d') = map fst (dicts h d)"
    "table_sets h1 d' \<subseteq> {fresh h..<fresh h1}"
    "distinct (map snd (dicts h1 d'))"
    "table_of h1 d' = table_of h d"
    unfolding d'_def by blast
  have dk: "distinct (map fst (dicts h1 d'))" using wf c(5) by (simp add: wf_table_def)
  have frame1: "\<forall>x<fresh h. dicts h1 x = dicts h x \<and> sets h1 x = sets h x"
    using c(3) c(4) by (simp add: d'_def)
  have wf1: "wf_table h1 d'"
    using c(2) c(6) c(7) dk by (auto simp: wf_table_def d'_def)
  show ?thesis
  proof (cases "set g \<inter> excl \<noteq> {}")
    case True
    have "update_path n excl d seq h = Inr (d', h1)"
      using c(1) True by (simp add: update_path_def g_def)
    moreover have "table_of h1 d' = extend_table excl g (table_of h d)"
      using True c(8) by (simp add: extend_table_def)
    ultimately show ?thesis
      using c(2) frame1 wf1 c(6) unfolding d'_def g_def by blast
  next
    case False
    define e where "e = fresh h1"
    define h2 where "h2 = h1\<lparr>sets := (sets h1)(e := {}), fresh := Suc e\<rparr>"
    define h3 where "h3 = dict_setdefault d' key e h2"
    have e_new: "e \<notin> table_sets h1 d'" using c(6) by (auto simp: e_def)
    show ?thesis
    proof (cases "map_of (dicts h1 d') key")
      case (Some fa)
      have h3: "h3 = h2" using Some by (simp add: h3_def dict_setdefault_def h2_def)
      have get: "dict_getitem h3 d' key = Inr fa"
        using Some by (simp add: h3 dict_getitem_def h2_def)
      define h' where "h' = set_add fa (last g) h3"
      have res: "update_path n excl d seq h = Inr (d', h')"
        using c(1) False ne get
        by (simp add: update_path_def g_def [symmetric] key_def [symmetric] new_set_def
            e_def [symmetric] h2_def [symmetric] h3_def [symmetric] h'_def Let_def)
      have fa_in: "fa \<in> table_sets h1 d'"
        using map_of_in_snd [OF Some] by (simp add: table_sets_def)
      then have fa_rng: "fresh h \<le> fa" "fa < fresh h1" "fa \<noteq> e"
        using c(6) e_new by auto
      have dh': "dicts h' = dicts h1" by (simp add: h'_def set_add_def h3 h2_def)
      have sh': "sets h' = (sets h1)(e := {}, fa := insert (last g) (sets h1 fa))"
        using fa_rng(3) by (simp add: h'_def set_add_def h3 h2_def)
      have fh': "fresh h' = Suc (fresh h1)" by (simp add: h'_def set_add_def h3 h2_def e_def)
      have frame: "\<forall>x<fresh h. dicts h' x = dicts h x \<and> sets h' x = sets h x"
        using frame1 fa_rng c(2) by (simp add: dh' sh' e_def)
      have wf': "wf_table h' d'"
        using wf1 by (auto simp: wf_table_def table_sets_def dh' fh')
      have sub: "table_sets h' d' \<subseteq> {fresh h..<fresh h'}"
        using c(6) by (auto simp: table_sets_def dh' fh')
      have content: "table_of h' d' k = extend_table excl g (table_of h d) k" for k
      proof (cases "k = key")
        case True
        have "table_of h1 d' key = Some (sets h1 fa)"
          using Some by (simp add: table_of_def)
        then have "table_of h d key = Some (sets h1 fa)"
          using c(8) by simp
        then have "extend_table excl g (table_of h d) key = Some (insert (last g) (sets h1 fa))"
          using False by (simp add: extend_table_def key_def [symmetric])
        moreover have "table_of h' d' key = Some (insert (last g) (sets h1 fa))"
          using Some by (simp add: table_of_def dh' sh')
        ultimately show ?thesis using True by simp
      next
        case neq: False
        have "table_of h' d' k = table_of h1 d' k"
        proof (cases "map_of (dicts h1 d') k")
          case None
          then show ?thesis by (simp add: table_of_def dh')
        next
          case (Some b)
          have "b \<noteq> fa" using map_of_distinct_snd [OF c(7) Some] \<open>map_of (dicts h1 d') key = Some fa\<close> neq
            by auto
          moreover have "b \<noteq> e" using map_of_in_snd [OF Some] e_new by (auto simp: table_sets_def)
          ultimately show ?thesis using Some by (simp add: table_of_def dh' sh')
        qed
        then show ?thesis
          using neq False c(8) by (simp add: extend_table_def key_def [symmetric])
      qed
      show ?thesis
        using res c(2) frame wf' sub content fh'
        unfolding d'_def g_def by (auto simp: fun_eq_iff)
    next
      case None
      have h3: "h3 = h2\<lparr>dicts := (dicts h2)(d' := dicts h2 d' @ [(key, e)])\<rparr>"
        using None by (simp add: h3_def dict_setdefault_def h2_def)
      have get: "dict_getitem h3 d' key = Inr e"
        using None by (simp add: h3 dict_getitem_def h2_def map_add_def)
      define h' where "h' = set_add e (last g) h3"
      have res: "update_path n excl d seq h = Inr (d', h')"
        using c(1) False ne get
        by (simp add: update_path_def g_def [symmetric] key_def [symmetric] new_set_def
            e_def [symmetric] h2_def [symmetric] h3_def [symmetric] h'_def Let_def)
      have dh': "dicts h' = (dicts h1)(d' := dicts h1 d' @ [(key, e)])"
        by (simp add: h'_def set_add_def h3 h2_def)
      have sh': "sets h' = (sets h1)(e := {last g})"
        by (simp add: h'_def set_add_def h3 h2_def)
      have fh': "fresh h' = Suc (fresh h1)" by (simp add: h'_def set_add_def h3 h2_def e_def)
      have frame: "\<forall>x<fresh h. dicts h' x = dicts h x \<and> sets h' x = sets h x"
        using frame1 c(2) by (simp add: dh' sh' e_def d'_def)
      have key_new: "key \<notin> fst ` set (dicts h1 d')"
        using None by (simp add: map_of_eq_None_iff)
      have wf': "wf_table h' d'"
        using wf1 key_new e_new
        by (auto simp: wf_table_def table_sets_def dh' fh' e_def)
      have sub: "table_sets h' d' \<subseteq> {fresh h..<fresh h'}"
        using c(6) c(2) by (auto simp: table_sets_def dh' fh' e_def)
      have "table_of h1 d' key = None"
        using None by (simp add: table_of_def)
      then have none_h: "table_of h d key = None"
        using c(8) by simp
      have content: "table_of h' d' k = extend_table excl g (table_of h d) k" for k
      proof (cases "k = key")
        case True
        have "extend_table excl g (table_of h d) key = Some {last g}"
          using False none_h by (simp add: extend_table_def key_def [symmetric])
        moreover have "table_of h' d' key = Some {last g}"
          using None by (simp add: table_of_def dh' sh' map_add_def)
        ultimately show ?thesis using True by simp
      next
        case neq: False
        have "table_of h' d' k = table_of h1 d' k"
        proof (cases "map_of (dicts h1 d') k")
          case None
          then show ?thesis using neq by (simp add: table_of_def dh' map_add_def)
        next
          case (Some b)
          have "b \<noteq> e" using map_of_in_snd [OF Some] e_new by (auto simp: table_sets_def)
          then show ?thesis using Some by (simp add: table_of_def dh' sh' map_add_def)
        qed
        then show ?thesis
          using neq False c(8) by (simp add: extend_table_def key_def [symmetric])
      qed
      show ?thesis
        using res c(2) frame wf' sub content fh'
        unfolding d'_def g_def by (auto simp: fun_eq_iff)
    qed
  qed
qed

lemma list_get_in_range: "0 \<le> p \<Longrightarrow> p < int (length xs) \<Longrightarrow> list_get xs p = Inr (xs ! nat p)"
  by (simp add: list_get_def py_index_def)

lemma frame_table:
  assumes "\<forall>x<f. dicts h' x = dicts h x \<and> sets h' x = sets h x"
    and "d < f" and "\<forall>a\<in>table_sets h d. a < f"
  shows "table_of h' d = table_of h d" and "table_sets h' d = table_sets h d"
proof -
  have dd: "dicts h' d = dicts h d" using assms(1,2) by simp
  show "table_sets h' d = table_sets h d" by (simp add: table_sets_def dd)
  show "table_of h' d = table_of h d"
  proof
    fix k
    show "table_of h' d k = table_of h d k"
    proof (cases "map_of (dicts h d) k")
      case None
      then show ?thesis by (simp add: table_of_def dd)
    next
      case (Some b)
      then have "b < f" using assms(3) map_of_in_snd [OF Some] by (auto simp: table_sets_def)
      then show ?thesis using Some assms(1) by (simp add: table_of_def dd)
    qed
  qed
qed

lemma frame_wf_table:
  assumes "wf_table h d" and "\<forall>x<fresh h. dicts h' x = dicts h x \<and> sets h' x = sets h x"
    and "fresh h \<le> fresh h'"
  shows "wf_table h' d"
proof -
  have "dicts h' d = dicts h d" using assms(1,2) by (simp add: wf_table_def)
  then show ?thesis using assms(1,3) by (auto simp: wf_table_def table_sets_def)
qed

lemma update_paths_spec:
  assumes "\<forall>d\<in>set old. wf_table h d"
    and "\<forall>(p, seq)\<in>set ps. 0 \<le> p \<and> p < int (length old) \<and> last_n n seq \<noteq> []"
  shows "\<exists>news h'. update_paths n excl old ps acc h = Inr (acc @ news, h') \<and>
           length news = length ps \<and> fresh h \<le> fresh h' \<and>
           (\<forall>x<fresh h. dicts h' x = dicts h x \<and> sets h' x = sets h x) \<and>
           (\<forall>i<length ps.
              fresh h \<le> news ! i \<and> news ! i < fresh h' \<and> wf_table h' (news ! i) \<and>
              table_sets h' (news ! i) \<subseteq> {fresh h..<fresh h'} \<and>
              table_of h' (news ! i)
                = extend_table excl (last_n n (snd (ps ! i))) (table_of h (old ! nat (fst (ps ! i))))) \<and>
           distinct news \<and>
           (\<forall>i<length ps. \<forall>j<length ps. i \<noteq> j \<longrightarrow>
              table_sets h' (news ! i) \<inter> table_sets h' (news ! j) = {})"
  using assms
proof (induction ps arbitrary: acc h)
  case Nil
  then show ?case by simp
next
  case (Cons q ps)
  obtain p seq where q: "q = (p, seq)" by (cases q)
  from Cons.prems(2) have pr: "0 \<le> p" "p < int (length old)" and ne: "last_n n seq \<noteq> []"
    by (simp_all add: q)
  define d where "d = old ! nat p"
  have d_in: "d \<in> set old" using pr by (simp add: d_def)
  have get: "list_get old p = Inr d" using pr by (simp add: list_get_in_range d_def)
  have wfd: "wf_table h d" using Cons.prems(1) d_in by simp
  define d' where "d' = fresh h"
  from update_path_spec [OF wfd ne, of excl] obtain h1 where st:
    "update_path n excl d seq h = Inr (d', h1)"
    "fresh h < fresh h1"
    "\<forall>x<fresh h. dicts h1 x = dicts h x \<and> sets h1 x = sets h x"
    "wf_table h1 d'"
    "table_sets h1 d' \<subseteq> {fresh h..<fresh h1}"
    "table_of h1 d' = extend_table excl (last_n n seq) (table_of h d)"
    unfolding d'_def by blast
  have old1: "\<forall>d\<in>set old. wf_table h1 d"
    using Cons.prems(1) st(2,3) by (auto intro: frame_wf_table)
  have rest: "\<forall>(p, seq)\<in>set ps. 0 \<le> p \<and> p < int (length old) \<and> last_n n seq \<noteq> []"
    using Cons.prems(2) by simp
  from Cons.IH [OF old1 rest, of "acc @ [d']"] obtain news h' where ih:
    "update_paths n excl old ps (acc @ [d']) h1 = Inr ((acc @ [d']) @ news, h')"
    "length news = length ps" "fresh h1 \<le> fresh h'"
    "\<forall>x<fresh h1. dicts h' x = dicts h1 x \<and> sets h' x = sets h1 x"
    "\<forall>i<length ps.
        fresh h1 \<le> news ! i \<and> news ! i < fresh h' \<and> wf_table h' (news ! i) \<and>
        table_sets h' (news ! i) \<subseteq> {fresh h1..<fresh h'} \<and>
        table_of h' (news ! i)
          = extend_table excl (last_n n (snd (ps ! i))) (table_of h1 (old ! nat (fst (ps ! i))))"
    "distinct news"
    "\<forall>i<length ps. \<forall>j<length ps. i \<noteq> j \<longrightarrow>
        table_sets h' (news ! i) \<inter> table_sets h' (news ! j) = {}"
    by blast
  have res: "update_paths n excl old (q # ps) acc h = Inr (acc @ (d' # news), h')"
    using get st(1) ih(1) by (simp add: q)
  have d'_lt: "d' < fresh h1" using st(2) by (simp add: d'_def)
  have sets_lt: "\<forall>a\<in>table_sets h1 d'. a < fresh h1" using st(5) by auto
  have t_d': "table_of h' d' = table_of h1 d'" "table_sets h' d' = table_sets h1 d'"
    using frame_table [OF ih(4) d'_lt sets_lt] by simp_all
  have wf_d': "wf_table h' d'" using frame_wf_table [OF st(4) ih(4) ih(3)] .
  have frame: "\<forall>x<fresh h. dicts h' x = dicts h x \<and> sets h' x = sets h x"
    using st(2,3) ih(4) by simp
  have old_tab: "table_of h1 (old ! nat r) = table_of h (old ! nat r)"
    if "0 \<le> r" "r < int (length old)" for r
  proof -
    have "old ! nat r \<in> set old" using that by simp
    then have w: "wf_table h (old ! nat r)" using Cons.prems(1) by simp
    show ?thesis
      using frame_table(1) [OF st(3), of "old ! nat r"] w by (simp add: wf_table_def)
  qed
  have item: "fresh h \<le> (d' # news) ! i \<and> (d' # news) ! i < fresh h' \<and>
              wf_table h' ((d' # news) ! i) \<and>
              table_sets h' ((d' # news) ! i) \<subseteq> {fresh h..<fresh h'} \<and>
              table_of h' ((d' # news) ! i)
                = extend_table excl (last_n n (snd ((q # ps) ! i)))
                    (table_of h (old ! nat (fst ((q # ps) ! i))))"
    if "i < length (q # ps)" for i
  proof (cases i)
    case 0
    have "table_sets h' d' \<subseteq> {fresh h..<fresh h'}" using st(5) ih(3) t_d'(2) by auto
    then show ?thesis
      using 0 d'_lt ih(3) wf_d' t_d'(1) st(6) by (simp add: q d_def d'_def)
  next
    case (Suc j)
    then have j: "j < length ps" using that by simp
    then have "(ps ! j) \<in> set ps" by simp
    then have r: "0 \<le> fst (ps ! j)" "fst (ps ! j) < int (length old)"
      using rest by (auto simp: case_prod_beta)
    have "table_sets h' (news ! j) \<subseteq> {fresh h..<fresh h'}"
      using ih(5) j st(2) by fastforce
    moreover from ih(5) j have nj: "fresh h1 \<le> news ! j" "news ! j < fresh h'" "wf_table h' (news ! j)"
      "table_of h' (news ! j)
          = extend_table excl (last_n n (snd (ps ! j))) (table_of h1 (old ! nat (fst (ps ! j))))"
      by simp_all
    moreover have "fresh h \<le> news ! j" using nj(1) st(2) by simp
    ultimately show ?thesis
      using Suc old_tab [OF r] by simp
  qed
  have dist: "distinct (d' # news)"
  proof -
    have "d' \<notin> set news"
    proof
      assume "d' \<in> set news"
      then obtain j where "j < length news" "news ! j = d'" by (auto simp: in_set_conv_nth)
      then show False using ih(5) ih(2) d'_lt by fastforce
    qed
    then show ?thesis using ih(6) by simp
  qed
  have disj: "table_sets h' ((d' # news) ! i) \<inter> table_sets h' ((d' # news) ! j) = {}"
    if ij: "i < length (q # ps)" "j < length (q # ps)" "i \<noteq> j" for i j
  proof -
    have first: "table_sets h' d' \<inter> table_sets h' (news ! m) = {}" if "m < length ps" for m
    proof -
      have "table_sets h' (news ! m) \<subseteq> {fresh h1..<fresh h'}" using ih(5) that by simp
      moreover have "table_sets h' d' \<subseteq> {fresh h..<fresh h1}" using st(5) t_d'(2) by simp
      ultimately show ?thesis by fastforce
    qed
    show ?thesis
    proof (cases i)
      case 0
      then obtain m where "j = Suc m" using ij(3) by (cases j) auto
      then show ?thesis using 0 first [of m] ij(2) by simp
    next
      case (Suc a)
      show ?thesis
      proof (cases j)
        case 0
        then show ?thesis using Suc first [of a] ij(1) by (simp add: Int_commute)
      next
        case (Suc b)
        then show ?thesis using \<open>i = Suc a\<close> ih(7) ij by simp
      qed
    qed
  qed
  have le: "fresh h \<le> fresh h'" using st(2) ih(3) by simp
  show ?case
    using res ih(2) le frame item dist disj
    by (intro exI [of _ "d' # news"] exI [of _ h']) simp
qed

lemma last_n_nonempty: "0 < n \<Longrightarrow> xs \<noteq> [] \<Longrightarrow> last_n n xs \<noteq> []"
proof -
  assume n: "0 < n" and "xs \<noteq> []"
  then have "length xs - n < length xs" by (cases xs) auto
  then show ?thesis using n by (simp add: last_n_def)
qed


section \<open>Updating the forbidden tables\<close>

lemma bigram_object_constructed:
  "DecodeStrategy_init empty_store 0 1 (EosInt 2) 3 1 1 2 0 2 {} False 3 False
     = Inr (bigram_object, demo_store)"
  by (simp add: DecodeStrategy_init_def bigram_object_def demo_object_def demo_store_def
      empty_store_def new_dict_def eval_nat_numeral fun_eq_iff)

lemma bigram_step1_updated:
  "maybe_update_forbidden_tokens bigram_step1 demo_store
     = Inr (bigram_step1\<lparr>forbidden_tokens := [2, 4]\<rparr>, bigram_store1)"
  by (simp add: maybe_update_forbidden_tokens_def bigram_step1_def bigram_object_def
      demo_object_def demo_store_def bigram_store1_def len_def update_path_def list_get_def
      py_index_def deepcopy_dict_def new_dict_def new_set_def last_n_def dict_setdefault_def
      dict_getitem_def set_add_def fun_eq_iff)


text \<open>
  Claim C4.  \<open>block_ngram_repeat = k > 0\<close>, \<open>alive_seq\<close> and \<open>select_indices\<close> are
  assigned, and the tables of \<open>forbidden_tokens\<close> are tables of the store.

  \<^item> When the sequences have fewer than \<open>k\<close> columns, the state and the store are
    returned unchanged.
  \<^item> Otherwise, with every entry of \<open>select_indices\<close> an index into
    \<open>forbidden_tokens\<close>, the new list has one table per pair of
    \<open>zip(select_indices, alive_seq)\<close>.  No object allocated before the call is changed.
    Table \<open>i\<close> is a dict that was not allocated before the call; it is none of the old
    tables and shares no set object with any of them, nor with another new table, also
    when two positions select the same old path.  It says what the old table of path
    \<open>select_indices[i]\<close> said before the call, with the last token of sequence \<open>i\<close>
    added to the set stored under the \<open>k - 1\<close> tokens before it; when the last \<open>k\<close>
    tokens hold an excluded token it says exactly what the old table said.
\<close>

theorem maybe_update_forbidden_tokens_copies:
  assumes "0 < block_ngram_repeat s" and "alive_seq s = Assigned a" and "wf_tensor a"
    and "select_indices s = Assigned sel" and "\<forall>d\<in>set (forbidden_tokens s). wf_table h d"
  shows "(int (ncols a) < block_ngram_repeat s \<longrightarrow>
            maybe_update_forbidden_tokens s h = Inr (s, h)) \<and>
         (block_ngram_repeat s \<le> int (ncols a) \<and>
          (\<forall>p\<in>set sel. 0 \<le> p \<and> p < int (length (forbidden_tokens s))) \<longrightarrow>
            (\<exists>ft h'. maybe_update_forbidden_tokens s h = Inr (s\<lparr>forbidden_tokens := ft\<rparr>, h') \<and>
               length ft = min (length sel) (nrows a) \<and>
               (\<forall>x<fresh h. dicts h' x = dicts h x \<and> sets h' x = sets h x) \<and>
               (\<forall>i<length ft.
                  fresh h \<le> ft ! i \<and> wf_table h' (ft ! i) \<and>
                  (\<forall>d\<in>set (forbidden_tokens s).
                     ft ! i \<noteq> d \<and> table_sets h' (ft ! i) \<inter> table_sets h d = {}) \<and>
                  table_of h' (ft ! i)
                    = extend_table (exclusion_tokens s)
                        (last_n (nat (block_ngram_repeat s)) (rows a ! i))
                        (table_of h (forbidden_tokens s ! nat (sel ! i)))) \<and>
               distinct ft \<and>
               (\<forall>i<length ft. \<forall>j<length ft. i \<noteq> j \<longrightarrow>
                  table_sets h' (ft ! i) \<inter> table_sets h' (ft ! j) = {})))"
proof (intro conjI impI)
  assume "int (ncols a) < block_ngram_repeat s"
  then show "maybe_update_forbidden_tokens s h = Inr (s, h)"
    using assms(1,2) by (simp add: maybe_update_forbidden_tokens_def len_def)
next
  assume h: "block_ngram_repeat s \<le> int (ncols a) \<and>
          (\<forall>p\<in>set sel. 0 \<le> p \<and> p < int (length (forbidden_tokens s)))"
  define n where "n = nat (block_ngram_repeat s)"
  define old where "old = forbidden_tokens s"
  define ps where "ps = zip sel (rows a)"
  have n_pos: "0 < n" using assms(1) by (simp add: n_def)
  have cols: "0 < ncols a" using h assms(1) by linarith
  have pre: "\<forall>(p, seq)\<in>set ps. 0 \<le> p \<and> p < int (length old) \<and> last_n n seq \<noteq> []"
  proof (clarify)
    fix p seq assume m: "(p, seq) \<in> set ps"
    then have "p \<in> set sel" "seq \<in> set (rows a)"
      by (auto simp: ps_def dest: set_zip_leftD set_zip_rightD)
    moreover from this assms(3) have "length seq = ncols a"
      by (simp add: wf_tensor_def list_all_iff)
    ultimately have "seq \<noteq> []" "0 \<le> p \<and> p < int (length old)"
      using h cols by (auto simp: old_def)
    then show "0 \<le> p \<and> p < int (length old) \<and> last_n n seq \<noteq> []"
      using last_n_nonempty [OF n_pos] by simp
  qed
  have wfo: "\<forall>d\<in>set old. wf_table h d" using assms(5) by (simp add: old_def)
  from update_paths_spec [OF wfo pre, of "exclusion_tokens s" "[]"]
  obtain ft h' where u:
    "update_paths n (exclusion_tokens s) old ps [] h = Inr (ft, h')"
    "length ft = length ps" "fresh h \<le> fresh h'"
    "\<forall>x<fresh h. dicts h' x = dicts h x \<and> sets h' x = sets h x"
    "\<forall>i<length ps.
        fresh h \<le> ft ! i \<and> ft ! i < fresh h' \<and> wf_table h' (ft ! i) \<and>
        table_sets h' (ft ! i) \<subseteq> {fresh h..<fresh h'} \<and>
        table_of h' (ft ! i)
          = extend_table (exclusion_tokens s) (last_n n (snd (ps ! i)))
              (table_of h (old ! nat (fst (ps ! i))))"
    "distinct ft"
    "\<forall>i<length ps. \<forall>j<length ps. i \<noteq> j \<longrightarrow>
        table_sets h' (ft ! i) \<inter> table_sets h' (ft ! j) = {}"
    by auto
  have res: "maybe_update_forbidden_tokens s h = Inr (s\<lparr>forbidden_tokens := ft\<rparr>, h')"
    using assms(1,2,4) h u(1)
    by (simp add: maybe_update_forbidden_tokens_def len_def n_def old_def ps_def)
  have len: "length ft = min (length sel) (nrows a)" using u(2) by (simp add: ps_def nrows_def)
  have item: "fresh h \<le> ft ! i \<and> wf_table h' (ft ! i) \<and>
              (\<forall>d\<in>set (forbidden_tokens s).
                 ft ! i \<noteq> d \<and> table_sets h' (ft ! i) \<inter> table_sets h d = {}) \<and>
              table_of h' (ft ! i)
                = extend_table (exclusion_tokens s) (last_n (nat (block_ngram_repeat s)) (rows a ! i))
                    (table_of h (forbidden_tokens s ! nat (sel ! i)))"
    if i: "i < length ft" for i
  proof -
    have ips: "i < length ps" using i u(2) by simp
    then have nth: "ps ! i = (sel ! i, rows a ! i)" by (simp add: ps_def)
    from u(5) ips have f: "fresh h \<le> ft ! i" "wf_table h' (ft ! i)"
      "table_sets h' (ft ! i) \<subseteq> {fresh h..<fresh h'}"
      "table_of h' (ft ! i)
          = extend_table (exclusion_tokens s) (last_n n (snd (ps ! i)))
              (table_of h (old ! nat (fst (ps ! i))))"
      by simp_all
    have sep: "ft ! i \<noteq> d \<and> table_sets h' (ft ! i) \<inter> table_sets h d = {}"
      if "d \<in> set (forbidden_tokens s)" for d
    proof -
      have "d < fresh h" "\<forall>x\<in>table_sets h d. x < fresh h"
        using assms(5) that by (simp_all add: wf_table_def)
      then show ?thesis using f(1) f(3) by fastforce
    qed
    show ?thesis using f(1,2,4) sep nth by (simp add: n_def old_def)
  qed
  show "\<exists>ft h'. maybe_update_forbidden_tokens s h = Inr (s\<lparr>forbidden_tokens := ft\<rparr>, h') \<and>
               length ft = min (length sel) (nrows a) \<and>
               (\<forall>x<fresh h. dicts h' x = dicts h x \<and> sets h' x = sets h x) \<and>
               (\<forall>i<length ft.
                  fresh h \<le> ft ! i \<and> wf_table h' (ft ! i) \<and>
                  (\<forall>d\<in>set (forbidden_tokens s).
                     ft ! i \<noteq> d \<and> table_sets h' (ft ! i) \<inter> table_sets h d = {}) \<and>
                  table_of h' (ft ! i)
                    = extend_table (exclusion_tokens s)
                        (last_n (nat (block_ngram_repeat s)) (rows a ! i))
                        (table_of h (forbidden_tokens s ! nat (sel ! i)))) \<and>
               distinct ft \<and>
               (\<forall>i<length ft. \<forall>j<length ft. i \<noteq> j \<longrightarrow>
                  table_sets h' (ft ! i) \<inter> table_sets h' (ft ! j) = {})"
    using res len u(4) item u(6) u(7) u(2) by (intro exI [of _ ft] exI [of _ h']) simp
qed

theorem maybe_update_forbidden_tokens_copies_witness:
  "maybe_update_forbidden_tokens
      (bigram_object\<lparr>alive_seq := Assigned \<lparr>ncols = 1, rows = [[1], [1]]\<rparr>,
                     select_indices := Assigned [0, 1]\<rparr>) demo_store
     = Inr (bigram_object\<lparr>alive_seq := Assigned \<lparr>ncols = 1, rows = [[1], [1]]\<rparr>,
                          select_indices := Assigned [0, 1]\<rparr>, demo_store) \<and>
   (\<exists>ft h'. maybe_update_forbidden_tokens bigram_step2 bigram_store1
               = Inr (bigram_step2\<lparr>forbidden_tokens := ft\<rparr>, h') \<and>
      length ft = 2 \<and> ft ! 0 \<noteq> ft ! 1 \<and> ft ! 0 \<noteq> 2 \<and> ft ! 1 \<noteq> 2 \<and>
      table_sets h' (ft ! 0) \<inter> table_sets h' (ft ! 1) = {} \<and>
      table_sets h' (ft ! 0) \<inter> table_sets bigram_store1 2 = {} \<and>
      table_sets h' (ft ! 1) \<inter> table_sets bigram_store1 2 = {} \<and>
      table_of h' (ft ! 0) [1] = Some {4} \<and> table_of h' (ft ! 0) [4] = Some {5} \<and>
      table_of h' (ft ! 1) [1] = Some {4} \<and> table_of h' (ft ! 1) [4] = Some {4} \<and>
      table_of h' 2 [1] = Some {4} \<and> table_of h' 2 [4] = None)"
proof -
  let ?s0 = "bigram_object\<lparr>alive_seq := Assigned \<lparr>ncols = 1, rows = [[1], [1]]\<rparr>,
                     select_indices := Assigned [0, 1]\<rparr>"
  have k0: "0 < block_ngram_repeat ?s0" by (simp add: bigram_object_def)
  have a0: "alive_seq ?s0 = Assigned \<lparr>ncols = 1, rows = [[1], [1]]\<rparr>" by simp
  have w0: "wf_tensor \<lparr>ncols = 1, rows = [[1], [1 :: int]]\<rparr>" by (simp add: wf_tensor_def)
  have s0: "select_indices ?s0 = Assigned [0, 1]" by simp
  have t0: "\<forall>d\<in>set (forbidden_tokens ?s0). wf_table demo_store d"
    by (simp add: bigram_object_def demo_object_def demo_store_def wf_table_def table_sets_def)
  have short: "maybe_update_forbidden_tokens ?s0 demo_store = Inr (?s0, demo_store)"
    using maybe_update_forbidden_tokens_copies [OF k0 a0 w0 s0 t0]
    by (simp add: bigram_object_def)
  let ?a = "\<lparr>ncols = 3, rows = [[1, 4, 5], [1, 4, 4 :: int]]\<rparr>"
  have k: "0 < block_ngram_repeat bigram_step2"
    by (simp add: bigram_step2_def bigram_step1_def bigram_object_def)
  have a: "alive_seq bigram_step2 = Assigned ?a" by (simp add: bigram_step2_def)
  have w: "wf_tensor ?a" by (simp add: wf_tensor_def)
  have sl: "select_indices bigram_step2 = Assigned [0, 0]" by (simp add: bigram_step2_def)
  have ft: "forbidden_tokens bigram_step2 = [2, 4]" by (simp add: bigram_step2_def)
  have t: "\<forall>d\<in>set (forbidden_tokens bigram_step2). wf_table bigram_store1 d"
    by (simp add: ft bigram_store1_def wf_table_def table_sets_def)
  have rng: "block_ngram_repeat bigram_step2 \<le> int (ncols ?a) \<and>
             (\<forall>p\<in>set [0, 0]. 0 \<le> p \<and> p < int (length (forbidden_tokens bigram_step2)))"
    by (simp add: ft) (simp add: bigram_step2_def bigram_step1_def bigram_object_def)
  from maybe_update_forbidden_tokens_copies [OF k a w sl t] rng
  obtain ft' h' where r:
    "maybe_update_forbidden_tokens bigram_step2 bigram_store1
       = Inr (bigram_step2\<lparr>forbidden_tokens := ft'\<rparr>, h')"
    "length ft' = min (length [0 :: int, 0]) (nrows ?a)"
    "\<forall>x<fresh bigram_store1. dicts h' x = dicts bigram_store1 x \<and> sets h' x = sets bigram_store1 x"
    "\<forall>i<length ft'.
        fresh bigram_store1 \<le> ft' ! i \<and> wf_table h' (ft' ! i) \<and>
        (\<forall>d\<in>set (forbidden_tokens bigram_step2).
           ft' ! i \<noteq> d \<and> table_sets h' (ft' ! i) \<inter> table_sets bigram_store1 d = {}) \<and>
        table_of h' (ft' ! i)
          = extend_table (exclusion_tokens bigram_step2)
              (last_n (nat (block_ngram_repeat bigram_step2)) (rows ?a ! i))
              (table_of bigram_store1 (forbidden_tokens bigram_step2 ! nat ([0, 0] ! i)))"
    "distinct ft'"
    "\<forall>i<length ft'. \<forall>j<length ft'. i \<noteq> j \<longrightarrow>
        table_sets h' (ft' ! i) \<inter> table_sets h' (ft' ! j) = {}"
    by blast
  have len: "length ft' = 2" using r(2) by (simp add: nrows_def)
  have kk: "nat (block_ngram_repeat bigram_step2) = 2" "exclusion_tokens bigram_step2 = {}"
    by (simp_all add: bigram_step2_def bigram_step1_def bigram_object_def demo_object_def)
  have old: "table_of bigram_store1 2 = (\<lambda>k. if k = [1] then Some {4} else None)"
    by (auto simp: table_of_def bigram_store1_def fun_eq_iff)
  have i0: "table_of h' (ft' ! 0) = extend_table {} [4, 5] (table_of bigram_store1 2)"
    "ft' ! 0 \<noteq> 2" "table_sets h' (ft' ! 0) \<inter> table_sets bigram_store1 2 = {}"
    using r(4) len by (simp_all add: kk ft last_n_def)
  have i1: "table_of h' (ft' ! 1) = extend_table {} [4, 4] (table_of bigram_store1 2)"
    "ft' ! 1 \<noteq> 2" "table_sets h' (ft' ! 1) \<inter> table_sets bigram_store1 2 = {}"
    using r(4) len by (simp_all add: kk ft last_n_def)
  have ne: "ft' ! 0 \<noteq> ft' ! 1" using r(5) len by (simp add: distinct_conv_nth)
  have dj: "table_sets h' (ft' ! 0) \<inter> table_sets h' (ft' ! 1) = {}" using r(6) len by simp
  have keep: "table_of h' 2 = table_of bigram_store1 2"
    using r(3) by (simp add: table_of_def bigram_store1_def fun_eq_iff)
  have "table_of h' (ft' ! 0) [1] = Some {4}" "table_of h' (ft' ! 0) [4] = Some {5}"
    "table_of h' (ft' ! 1) [1] = Some {4}" "table_of h' (ft' ! 1) [4] = Some {4}"
    "table_of h' 2 [1] = Some {4}" "table_of h' 2 [4] = None"
    using i0(1) i1(1) by (simp_all add: keep old extend_table_def)
  then show ?thesis using short r(1) len ne dj i0(2,3) i1(2,3) by blast
qed

section \<open>Blocking with a block size of two or more\<close>

text \<open>
  Indices inside the row: the write succeeds and sets exactly the listed entries.
\<close>

lemma block_row_in_range:
  assumes "\<forall>t\<in>F. 0 \<le> t \<and> t < int (length r)"
  shows "block_row v r F = Inr (blocked_row v r F)"
proof -
  have "(int j \<in> F \<or> int j - int (length r) \<in> F) = (int j \<in> F)" if "j < length r" for j
    using assms that by force
  then have "map (\<lambda>(j, x). if int j \<in> F \<or> int j - int (length r) \<in> F then v else x)
                 (enumerate 0 r)
             = blocked_row v r F"
    unfolding blocked_row_def by (auto simp: in_set_enumerate_eq)
  moreover have "\<forall>t\<in>F. - int (length r) \<le> t \<and> t < int (length r)" using assms by force
  ultimately show ?thesis by (simp add: block_row_def)
qed

lemma blocked_row_nth:
  "t < length r \<Longrightarrow> blocked_row v r F ! t = (if int t \<in> F then v else r ! t)"
  by (simp add: blocked_row_def nth_enumerate_eq)

lemma length_blocked_row: "length (blocked_row v r F) = length r"
  by (simp add: blocked_row_def)

lemma length_path_blocked: "length (path_blocked v n h d seq r) = length r"
  by (simp add: path_blocked_def length_blocked_row split: option.splits)

lemma block_paths_spec:
  assumes "wf_tensor lp" and "distinct (map fst ps)" and "to_dtype ngram_sentinel = Inr v"
    and "\<forall>(j, seq)\<in>set ps. j < nrows lp \<and> j < length ft \<and>
           (\<forall>F. table_of h (ft ! j) (last_n n seq) = Some F \<longrightarrow>
                 (\<forall>t\<in>F. 0 \<le> t \<and> t < int (ncols lp)))"
  shows "\<exists>lp'. block_paths to_dtype n h ft ps lp = Inr lp' \<and> ncols lp' = ncols lp \<and>
           nrows lp' = nrows lp \<and> wf_tensor lp' \<and>
           (\<forall>i<nrows lp.
              rows lp' ! i = (case map_of ps i of None \<Rightarrow> rows lp ! i
                              | Some seq \<Rightarrow> path_blocked v n h (ft ! i) seq (rows lp ! i)))"
  using assms
proof (induction ps arbitrary: lp)
  case Nil
  then show ?case by simp
next
  case (Cons q ps)
  obtain j seq where q: "q = (j, seq)" by (cases q)
  note cast = Cons.prems(3)
  from Cons.prems(4) have j: "j < nrows lp" "j < length ft"
    and rngF: "\<forall>F. table_of h (ft ! j) (last_n n seq) = Some F \<longrightarrow>
                 (\<forall>t\<in>F. 0 \<le> t \<and> t < int (ncols lp))"
    by (simp_all add: q)
  have get: "list_get ft (int j) = Inr (ft ! j)"
    using j(2) by (simp add: list_get_def py_index_def)
  have dist: "distinct (map fst ps)" and fresh_j: "map_of ps j = None"
    using Cons.prems(2) by (auto simp: q map_of_eq_None_iff)
  have row_len: "length (rows lp ! j) = ncols lp"
    using Cons.prems(1) j(1) by (simp add: wf_tensor_def list_all_length nrows_def)
  define r' where "r' = path_blocked v n h (ft ! j) seq (rows lp ! j)"
  define lp1 where "lp1 = lp\<lparr>rows := (rows lp)[j := r']\<rparr>"
  have len_r': "length r' = ncols lp" by (simp add: r'_def length_path_blocked row_len)
  have wf1: "wf_tensor lp1"
    using Cons.prems(1) len_r' by (auto simp: lp1_def wf_tensor_def list_all_iff dest: set_update_subset_insert [THEN subsetD])
  have shape1: "ncols lp1 = ncols lp" "nrows lp1 = nrows lp" by (simp_all add: lp1_def nrows_def)
  have rest: "\<forall>(j, seq)\<in>set ps. j < nrows lp1 \<and> j < length ft \<and>
           (\<forall>F. table_of h (ft ! j) (last_n n seq) = Some F \<longrightarrow>
                 (\<forall>t\<in>F. 0 \<le> t \<and> t < int (ncols lp1)))"
    using Cons.prems(4) by (simp add: shape1)
  have step: "block_paths to_dtype n h ft (q # ps) lp = block_paths to_dtype n h ft ps lp1"
  proof (cases "map_of (dicts h (ft ! j)) (last_n n seq)")
    case None
    then have "r' = rows lp ! j" by (simp add: r'_def path_blocked_def table_of_def)
    then have "lp1 = lp" by (simp add: lp1_def)
    then show ?thesis using None get by (simp add: q dict_get_def)
  next
    case (Some fa)
    then have tab: "table_of h (ft ! j) (last_n n seq) = Some (sets h fa)"
      by (simp add: table_of_def)
    then have "\<forall>t\<in>sets h fa. 0 \<le> t \<and> t < int (length (rows lp ! j))"
      using rngF row_len by simp
    then have "block_row v (rows lp ! j) (sets h fa) = Inr (blocked_row v (rows lp ! j) (sets h fa))"
      by (rule block_row_in_range)
    moreover have "r' = blocked_row v (rows lp ! j) (sets h fa)"
      using tab by (simp add: r'_def path_blocked_def)
    ultimately show ?thesis using Some get j(1) cast by (simp add: q dict_get_def lp1_def)
  qed
  from Cons.IH [OF wf1 dist cast rest] obtain lp' where ih:
    "block_paths to_dtype n h ft ps lp1 = Inr lp'" "ncols lp' = ncols lp1" "nrows lp' = nrows lp1"
    "wf_tensor lp'"
    "\<forall>i<nrows lp1. rows lp' ! i = (case map_of ps i of None \<Rightarrow> rows lp1 ! i
                              | Some seq \<Rightarrow> path_blocked v n h (ft ! i) seq (rows lp1 ! i))"
    by blast
  have pt: "rows lp' ! i = (case map_of (q # ps) i of None \<Rightarrow> rows lp ! i
                              | Some seq \<Rightarrow> path_blocked v n h (ft ! i) seq (rows lp ! i))"
    if i: "i < nrows lp" for i
  proof (cases "i = j")
    case True
    have "rows lp' ! j = rows lp1 ! j" using ih(5) j(1) fresh_j by (simp add: shape1)
    also have "\<dots> = r'" using j(1) by (simp add: lp1_def nrows_def)
    finally show ?thesis using True by (simp add: q r'_def)
  next
    case False
    then have "rows lp1 ! i = rows lp ! i" by (simp add: lp1_def)
    then show ?thesis using ih(5) i False by (simp add: shape1 q split: option.splits)
  qed
  show ?case using step ih(1-4) pt by (simp add: shape1)
qed

text \<open>
  For \<open>block_ngram_repeat = k \<ge> 2\<close> and sequences of at least \<open>k\<close> tokens, with the
  forbidden tokens inside the vocabulary and a dtype that stores \<open>v\<close> for \<open>-10e20\<close>:
  in the row of path \<open>i\<close>, every token that the table of the path forbids for the last
  \<open>k - 1\<close> tokens of its sequence gets \<open>v\<close>, and every other entry of every row is
  unchanged.
\<close>

lemma map_of_enumerate:
  "map_of (enumerate 0 xs) i = (if i < length xs then Some (xs ! i) else None)"
proof (cases "i < length xs")
  case True
  then have "(i, xs ! i) \<in> set (enumerate 0 xs)" by (simp add: in_set_enumerate_eq)
  moreover have "distinct (map fst (enumerate 0 xs))" by (simp add: map_fst_enumerate)
  ultimately show ?thesis using True by simp
next
  case False
  then have "i \<notin> fst ` set (enumerate 0 xs)" by (auto simp: in_set_enumerate_eq)
  then show ?thesis using False by (simp add: map_of_eq_None_iff)
qed

lemma block_ngram_repeats_blocks:
  assumes k: "2 \<le> block_ngram_repeat s" and a: "alive_seq s = Assigned a" and wfa: "wf_tensor a"
    and len: "block_ngram_repeat s \<le> int (ncols a)"
    and wflp: "wf_tensor lp" and nr: "nrows lp = nrows a"
    and nft: "nrows a \<le> length (forbidden_tokens s)"
    and cast: "to_dtype ngram_sentinel = Inr v"
    and rng: "\<forall>i<nrows a. \<forall>F.
                table_of h (forbidden_tokens s ! i)
                  (drop (ncols a - nat (block_ngram_repeat s - 1)) (rows a ! i)) = Some F \<longrightarrow>
                (\<forall>t\<in>F. 0 \<le> t \<and> t < int (ncols lp))"
  shows "\<exists>lp'. block_ngram_repeats to_dtype s h lp = Inr lp' \<and> ncols lp' = ncols lp \<and>
           nrows lp' = nrows lp \<and> wf_tensor lp' \<and>
           (\<forall>i<nrows lp. \<forall>t<ncols lp.
              rows lp' ! i ! t =
                (case table_of h (forbidden_tokens s ! i)
                        (drop (ncols a - nat (block_ngram_repeat s - 1)) (rows a ! i)) of
                   None \<Rightarrow> rows lp ! i ! t
                 | Some F \<Rightarrow> if int t \<in> F then v else rows lp ! i ! t))"
proof -
  define n where "n = nat (block_ngram_repeat s - 1)"
  define ft where "ft = forbidden_tokens s"
  define ps where "ps = enumerate 0 (rows a)"
  have n_pos: "0 < n" using k by (simp add: n_def)
  have suffix: "last_n n (rows a ! i) = drop (ncols a - n) (rows a ! i)" if "i < nrows a" for i
  proof -
    have "length (rows a ! i) = ncols a"
      using wfa that by (simp add: wf_tensor_def list_all_length nrows_def)
    then show ?thesis using n_pos by (simp add: last_n_def)
  qed
  have dist: "distinct (map fst ps)" by (simp add: ps_def map_fst_enumerate)
  have pre: "\<forall>(j, seq)\<in>set ps. j < nrows lp \<and> j < length ft \<and>
           (\<forall>F. table_of h (ft ! j) (last_n n seq) = Some F \<longrightarrow>
                 (\<forall>t\<in>F. 0 \<le> t \<and> t < int (ncols lp)))"
  proof clarify
    fix j seq assume "(j, seq) \<in> set ps"
    then have j: "j < nrows a" "seq = rows a ! j"
      by (simp_all add: ps_def in_set_enumerate_eq nrows_def)
    show "j < nrows lp \<and> j < length ft \<and>
           (\<forall>F. table_of h (ft ! j) (last_n n seq) = Some F \<longrightarrow>
                 (\<forall>t\<in>F. 0 \<le> t \<and> t < int (ncols lp)))"
      using j nr nft rng suffix [OF j(1)] by (simp add: ft_def n_def)
  qed
  from block_paths_spec [where to_dtype = to_dtype and v = v, OF wflp dist cast pre]
  obtain lp' where r:
    "block_paths to_dtype n h ft ps lp = Inr lp'" "ncols lp' = ncols lp" "nrows lp' = nrows lp"
    "wf_tensor lp'"
    "\<forall>i<nrows lp. rows lp' ! i = (case map_of ps i of None \<Rightarrow> rows lp ! i
                              | Some seq \<Rightarrow> path_blocked v n h (ft ! i) seq (rows lp ! i))"
    by blast
  have res: "block_ngram_repeats to_dtype s h lp = Inr lp'"
    using k a len r(1) by (simp add: block_ngram_repeats_def len_def n_def ft_def ps_def)
  have pt: "rows lp' ! i ! t =
                (case table_of h (ft ! i) (drop (ncols a - n) (rows a ! i)) of
                   None \<Rightarrow> rows lp ! i ! t
                 | Some F \<Rightarrow> if int t \<in> F then v else rows lp ! i ! t)"
    if i: "i < nrows lp" and t: "t < ncols lp" for i t
  proof -
    have ia: "i < nrows a" using i nr by simp
    have rl: "length (rows lp ! i) = ncols lp"
      using wflp i by (simp add: wf_tensor_def list_all_length nrows_def)
    have "map_of ps i = Some (rows a ! i)"
      using ia by (simp add: ps_def map_of_enumerate nrows_def)
    then have "rows lp' ! i = path_blocked v n h (ft ! i) (rows a ! i) (rows lp ! i)"
      using r(5) i by simp
    then show ?thesis
      using suffix [OF ia] t rl
      by (simp add: path_blocked_def blocked_row_nth split: option.splits)
  qed
  show ?thesis using res r(2-4) pt by (simp add: n_def ft_def)
qed

lemma excl_ok_empty: "dicts h d = [] \<Longrightarrow> excl_ok excl (table_of h d)"
  by (simp add: excl_ok_def table_of_def)

lemma excl_ok_extend:
  assumes "excl_ok excl T" and "g \<noteq> []"
  shows "excl_ok excl (extend_table excl g T)"
proof (cases "set g \<inter> excl \<noteq> {}")
  case True
  then show ?thesis using assms(1) by (simp add: extend_table_def)
next
  case False
  then have g: "set g \<inter> excl = {}" by simp
  have key: "set (butlast g) \<inter> excl = {}" using g by (auto dest: in_set_butlastD)
  have "last g \<in> set g" using assms(2) by simp
  then have lst: "last g \<notin> excl" using g by blast
  have old: "F \<inter> excl = {}" if "T (butlast g) = Some F" for F
    using assms(1) that by (auto simp: excl_ok_def)
  have new: "insert (last g) (case T (butlast g) of None \<Rightarrow> {} | Some F \<Rightarrow> F) \<inter> excl = {}"
    using lst old by (auto split: option.splits)
  show ?thesis
    unfolding excl_ok_def
  proof (intro allI impI)
    fix k F assume kF: "extend_table excl g T k = Some F"
    show "set k \<inter> excl = {} \<and> F \<inter> excl = {}"
    proof (cases "k = butlast g")
      case True
      then show ?thesis using kF g key new by (simp add: extend_table_def)
    next
      case False
      then have "T k = Some F" using kF g by (simp add: extend_table_def)
      then show ?thesis using assms(1) by (simp add: excl_ok_def)
    qed
  qed
qed

lemma new_dicts_spec:
  "\<exists>h'. new_dicts n h = ([fresh h..<fresh h + n], h') \<and> fresh h' = fresh h + n \<and>
        (\<forall>d. fresh h \<le> d \<and> d < fresh h + n \<longrightarrow> dicts h' d = [])"
proof (induction n arbitrary: h)
  case 0
  then show ?case by auto
next
  case (Suc n)
  define h1 where "h1 = h\<lparr>dicts := (dicts h)(fresh h := []), fresh := Suc (fresh h)\<rparr>"
  from Suc.IH [of h1] obtain h' where ih:
    "new_dicts n h1 = ([fresh h1..<fresh h1 + n], h')" "fresh h' = fresh h1 + n"
    "\<forall>d. fresh h1 \<le> d \<and> d < fresh h1 + n \<longrightarrow> dicts h' d = []"
    by blast
  have f1: "fresh h1 = Suc (fresh h)" by (simp add: h1_def)
  have keep: "dicts h' (fresh h) = []"
  proof -
    have "\<exists>h''. new_dicts m g = ([fresh g..<fresh g + m], h'') \<and>
            (\<forall>d<fresh g. dicts h'' d = dicts g d)" for m g
    proof (induction m arbitrary: g)
      case 0
      then show ?case by simp
    next
      case (Suc m)
      define g1 where "g1 = g\<lparr>dicts := (dicts g)(fresh g := []), fresh := Suc (fresh g)\<rparr>"
      from Suc [of g1] obtain h'' where
        "new_dicts m g1 = ([fresh g1..<fresh g1 + m], h'')" "\<forall>d<fresh g1. dicts h'' d = dicts g1 d"
        by blast
      then show ?case
        by (auto simp: new_dict_def g1_def upt_conv_Cons)
    qed
    from this [of n h1] ih(1) have "\<forall>d<fresh h1. dicts h' d = dicts h1 d" by auto
    then show ?thesis by (simp add: h1_def)
  qed
  have "new_dicts (Suc n) h = (fresh h # [fresh h1..<fresh h1 + n], h')"
    using ih(1) by (simp add: new_dict_def h1_def)
  moreover have "fresh h # [fresh h1..<fresh h1 + n] = [fresh h..<fresh h + Suc n]"
    by (simp add: f1 upt_conv_Cons)
  moreover have "\<forall>d. fresh h \<le> d \<and> d < fresh h + Suc n \<longrightarrow> dicts h' d = []"
  proof (intro allI impI)
    fix d assume d: "fresh h \<le> d \<and> d < fresh h + Suc n"
    show "dicts h' d = []"
    proof (cases "d = fresh h")
      case True
      then show ?thesis using keep by simp
    next
      case False
      then show ?thesis using d ih(3) f1 by simp
    qed
  qed
  ultimately show ?case using ih(2) f1 by simp
qed

text \<open>The tables of a new object are empty tables of the store.\<close>

lemma init_tables_empty:
  assumes "DecodeStrategy_init h pd bs es uk st b p mn k ex ra mx bu = Inr (s, h')"
  shows "\<forall>d\<in>set (forbidden_tokens s). wf_table h' d \<and> excl_ok (exclusion_tokens s) (table_of h' d)"
proof -
  from new_dicts_spec [of "nat (b * p)" h] obtain h1 where n:
    "new_dicts (nat (b * p)) h = ([fresh h..<fresh h + nat (b * p)], h1)"
    "fresh h1 = fresh h + nat (b * p)"
    "\<forall>d. fresh h \<le> d \<and> d < fresh h + nat (b * p) \<longrightarrow> dicts h1 d = []"
    by blast
  from assms n(1) have s: "forbidden_tokens s = [fresh h..<fresh h + nat (b * p)]" "h' = h1"
    by (auto simp: DecodeStrategy_init_def)
  show ?thesis
  proof
    fix d assume "d \<in> set (forbidden_tokens s)"
    then have d: "fresh h \<le> d" "d < fresh h + nat (b * p)" by (simp_all add: s(1))
    then have e: "dicts h' d = []" using n(3) s(2) by simp
    have "wf_table h' d" using d e n(2) s(2) by (simp add: wf_table_def table_sets_def)
    then show "wf_table h' d \<and> excl_ok (exclusion_tokens s) (table_of h' d)"
      using excl_ok_empty [OF e] by simp
  qed
qed

text \<open>
  An update keeps the tables tables of the store and keeps them respecting the exclusion
  set: a token is recorded as forbidden only when neither it nor a token of its key is
  excluded.
\<close>

lemma maybe_update_forbidden_tokens_excl_ok:
  assumes "alive_seq s = Assigned a" and "wf_tensor a" and "select_indices s = Assigned sel"
    and "\<forall>p\<in>set sel. 0 \<le> p \<and> p < int (length (forbidden_tokens s))"
    and "\<forall>d\<in>set (forbidden_tokens s).
           wf_table h d \<and> excl_ok (exclusion_tokens s) (table_of h d)"
    and "maybe_update_forbidden_tokens s h = Inr (s', h')"
  shows "exclusion_tokens s' = exclusion_tokens s \<and>
         (\<forall>d\<in>set (forbidden_tokens s').
            wf_table h' d \<and> excl_ok (exclusion_tokens s') (table_of h' d))"
proof (cases "block_ngram_repeat s \<le> 0 \<or> int (ncols a) < block_ngram_repeat s")
  case True
  then have "s' = s" "h' = h"
    using assms(1,6) by (auto simp: maybe_update_forbidden_tokens_def len_def)
  then show ?thesis using assms(5) by simp
next
  case False
  define n where "n = nat (block_ngram_repeat s)"
  define old where "old = forbidden_tokens s"
  define ps where "ps = zip sel (rows a)"
  have n_pos: "0 < n" and cols: "0 < ncols a" using False by (simp_all add: n_def)
  have ne: "last_n n seq \<noteq> []" if "seq \<in> set (rows a)" for seq
  proof -
    have "length seq = ncols a" using assms(2) that by (simp add: wf_tensor_def list_all_iff)
    then have "seq \<noteq> []" using cols by auto
    then show ?thesis by (rule last_n_nonempty [OF n_pos])
  qed
  have pre: "\<forall>(p, seq)\<in>set ps. 0 \<le> p \<and> p < int (length old) \<and> last_n n seq \<noteq> []"
  proof clarify
    fix p seq assume "(p, seq) \<in> set ps"
    then have "p \<in> set sel" "seq \<in> set (rows a)"
      by (auto simp: ps_def dest: set_zip_leftD set_zip_rightD)
    then show "0 \<le> p \<and> p < int (length old) \<and> last_n n seq \<noteq> []"
      using assms(4) ne by (simp add: old_def)
  qed
  have wfo: "\<forall>d\<in>set old. wf_table h d" using assms(5) by (simp add: old_def)
  from update_paths_spec [OF wfo pre, of "exclusion_tokens s" "[]"]
  obtain ft h2 where u:
    "update_paths n (exclusion_tokens s) old ps [] h = Inr (ft, h2)"
    "length ft = length ps"
    "\<forall>i<length ps.
        fresh h \<le> ft ! i \<and> ft ! i < fresh h2 \<and> wf_table h2 (ft ! i) \<and>
        table_sets h2 (ft ! i) \<subseteq> {fresh h..<fresh h2} \<and>
        table_of h2 (ft ! i)
          = extend_table (exclusion_tokens s) (last_n n (snd (ps ! i)))
              (table_of h (old ! nat (fst (ps ! i))))"
    by auto
  have res: "s' = s\<lparr>forbidden_tokens := ft\<rparr>" "h' = h2"
    using assms(1,3,6) False u(1)
    by (auto simp: maybe_update_forbidden_tokens_def len_def n_def old_def ps_def)
  have ok: "wf_table h2 d \<and> excl_ok (exclusion_tokens s) (table_of h2 d)" if "d \<in> set ft" for d
  proof -
    from that obtain i where i: "i < length ft" "ft ! i = d" by (auto simp: in_set_conv_nth)
    then have ips: "i < length ps" using u(2) by simp
    then have m: "ps ! i \<in> set ps" by simp
    then have p: "0 \<le> fst (ps ! i)" "fst (ps ! i) < int (length old)"
      "last_n n (snd (ps ! i)) \<noteq> []"
      using pre by (auto simp: case_prod_beta)
    then have "old ! nat (fst (ps ! i)) \<in> set old" by simp
    then have "excl_ok (exclusion_tokens s) (table_of h (old ! nat (fst (ps ! i))))"
      using assms(5) by (simp add: old_def)
    from excl_ok_extend [OF this p(3)] u(3) ips i(2) show ?thesis by auto
  qed
  show ?thesis using ok by (simp add: res)
qed

text \<open>
  The second scenario of section 8 of the specification: bigram blocking, the sequence
  so far is \<open>[1, 4, 5]\<close> and \<open>4\<close> is recorded as forbidden after \<open>(5,)\<close>; the score
  of token \<open>4\<close> becomes the sentinel (here in a dtype that holds \<open>-10e20\<close> as it
  is, such as float64).
\<close>

lemma block_ngram_repeats_bigram_example:
  "block_ngram_repeats Inr
     (unigram_step1\<lparr>block_ngram_repeat := 2, forbidden_tokens := [1],
                    alive_seq := Assigned \<lparr>ncols = 3, rows = [[1, 4, 5]]\<rparr>\<rparr>)
     \<lparr>dicts = (\<lambda>_. [])(1 := [([5], 2)]), sets = (\<lambda>_. {})(2 := {4}), fresh = 3\<rparr>
     unigram_scores
   = Inr \<lparr>ncols = 6, rows = [[- 1, - 2, - 3, - 4, ngram_sentinel, - 6]]\<rparr>"
  by (simp add: block_ngram_repeats_def unigram_step1_def unigram_object_def demo_object_def
      len_def list_get_def py_index_def last_n_def dict_get_def enumerate_eq_zip
      unigram_scores_def nrows_def block_row_def upt_rec)

section \<open>Block size one\<close>

lemma unigram_object_constructed:
  "DecodeStrategy_init empty_store 0 1 (EosInt 2) 3 1 1 1 0 1 {} False 3 False
     = Inr (unigram_object, unigram_store0)"
  by (simp add: DecodeStrategy_init_def unigram_object_def demo_object_def unigram_store0_def
      empty_store_def new_dict_def fun_eq_iff)

text \<open>
  Claim C3 at \<open>block_ngram_repeat = 1\<close>.  After the sequence \<open>[1, 4]\<close> is recorded,
  the table of the path stores the token \<open>4\<close> as forbidden under the empty tuple, which
  is the \<open>(k - 1)\<close>-token suffix of every sequence.  \<open>block_ngram_repeats\<close> looks up
  \<open>alive_seq[path_idx, -0:]\<close>, which is the whole sequence \<open>(1, 4)\<close> and not the empty
  tuple, finds nothing and returns the scores as they are, whatever their dtype: the
  score of token \<open>4\<close> stays \<open>-5\<close>.
\<close>

theorem block_ngram_repeats_unigram_not_blocked:
  "maybe_update_forbidden_tokens unigram_step1 unigram_store0
     = Inr (unigram_step1\<lparr>forbidden_tokens := [1]\<rparr>, unigram_store1) \<and>
   table_of unigram_store1 1 [] = Some {4} \<and>
   block_ngram_repeats to_dtype (unigram_step1\<lparr>forbidden_tokens := [1]\<rparr>) unigram_store1
       unigram_scores
     = Inr unigram_scores \<and>
   rows unigram_scores ! 0 ! 4 = - 5"
  by (simp add: maybe_update_forbidden_tokens_def unigram_step1_def unigram_object_def
      demo_object_def unigram_store0_def unigram_store1_def len_def update_path_def list_get_def
      py_index_def deepcopy_dict_def new_dict_def new_set_def last_n_def dict_setdefault_def
      dict_getitem_def set_add_def fun_eq_iff table_of_def block_ngram_repeats_def
      dict_get_def enumerate_eq_zip unigram_scores_def)

section \<open>The caches of the decoder layers\<close>

text \<open>
  The loop over the layers returns one layer per layer it was given, each as some call of
  \<open>call\<close> on that layer left it, and binds \<open>attn\<close> when there is a layer.
\<close>

lemma run_layers_layers:
  "\<exists>e a al rs. run_layers call enc src tgt step wa ra ls emb attn aligns = (e, a, al, rs) \<and>
      length rs = length ls \<and> (ls \<noteq> [] \<or> attn \<noteq> Unset \<longrightarrow> a \<noteq> Unset) \<and>
      (\<forall>i<length ls. \<exists>x. rs ! i = snd (call (ls ! i) x enc src tgt step wa ra))"
proof (induction ls arbitrary: emb attn aligns)
  case Nil
  then show ?case by simp
next
  case (Cons l ls)
  obtain emb' attn' al' l' where c: "call l emb enc src tgt step wa ra = ((emb', attn', al'), l')"
    by (metis prod_cases3 surj_pair)
  define aligns' where "aligns' = (case al' of None \<Rightarrow> aligns | Some x \<Rightarrow> aligns @ [x])"
  from Cons.IH [of emb' "Assigned attn'" aligns'] obtain e a al rs where r:
    "run_layers call enc src tgt step wa ra ls emb' (Assigned attn') aligns' = (e, a, al, rs)"
    "length rs = length ls" "ls \<noteq> [] \<or> Assigned attn' \<noteq> Unset \<longrightarrow> a \<noteq> Unset"
    "\<forall>i<length ls. \<exists>x. rs ! i = snd (call (ls ! i) x enc src tgt step wa ra)"
    by blast
  have a_set: "a \<noteq> Unset" using r(3) by simp
  have res: "run_layers call enc src tgt step wa ra (l # ls) emb attn aligns = (e, a, al, l' # rs)"
    using c r(1) by (simp add: aligns'_def)
  have nth: "\<exists>x. (l' # rs) ! i = snd (call ((l # ls) ! i) x enc src tgt step wa ra)"
    if "i < length (l # ls)" for i
  proof (cases i)
    case 0
    have "l' = snd (call l emb enc src tgt step wa ra)" using c by simp
    then show ?thesis using 0 by auto
  next
    case (Suc j)
    then show ?thesis using r(4) that by simp
  qed
  show ?case using res r(2) a_set nth by simp
qed

lemma size_at_first: "shape t \<noteq> [] \<Longrightarrow> size_at t 0 = Inr (hd (shape t))"
  by (cases "shape t") (simp_all add: size_at_def list_get_def py_index_def)

lemma size_at_last: "shape t \<noteq> [] \<Longrightarrow> size_at t (- 1) = Inr (last (shape t))"
proof -
  assume ne: "shape t \<noteq> []"
  then have pos: "Suc 0 \<le> length (shape t)" by (cases "shape t") simp_all
  then have "nat (int (length (shape t)) + - 1) = length (shape t) - 1" by linarith
  then have "py_index (length (shape t)) (- 1) = Some (length (shape t) - 1)"
    using pos by (simp add: py_index_def)
  then show ?thesis using ne by (simp add: size_at_def list_get_def last_conv_nth)
qed

lemma init_cache_ok:
  "shape enc \<noteq> [] \<Longrightarrow>
   init_cache enc layers = Inr (map (init_layer_cache (hd (shape enc)) (last (shape enc))) layers)"
  by (simp add: init_cache_def size_at_first size_at_last)

lemma forward_layers:
  assumes "dim emb = 3" and "prepare_caches step (case enc_out of None \<Rightarrow> emb | Some e \<Rightarrow> e) layers = Inr ls"
  shows "layers_after (forward call lnorm al layers emb enc_out (Some tgt) (Some src) step wa ra)
           = snd (snd (snd (run_layers call (case enc_out of None \<Rightarrow> emb | Some e \<Rightarrow> e) src tgt step
                              wa (wa \<or> ra) ls emb Unset [])))"
  using assms
  by (simp add: forward_def layers_after_def Let_def
      split: prod.splits attr.splits sum.splits)

lemma context_step_empty:
  "context_attn_cache_step derive w enc (True, KeysValues empty_tensor empty_tensor)
     = (True, KeysValues (fst (derive w enc)) (snd (derive w enc)))"
  by (simp add: context_attn_cache_step_def numel_def empty_tensor_def)

lemma context_step_filled:
  "numel k \<noteq> 0 \<Longrightarrow>
   context_attn_cache_step derive w enc (True, KeysValues k v) = (True, KeysValues k v)"
  by (simp add: context_attn_cache_step_def)

lemma context_step_inactive:
  "context_attn_cache_step derive w enc (False, c) = (False, c)"
  by (simp add: context_attn_cache_step_def)


lemma spec_layer_call_as_spec: "context_cache_as_spec (spec_layer_call derive) derive"
  by (simp add: context_cache_as_spec_def spec_layer_call_def)


text \<open>
  Claim C7.  \<open>emb\<close> has three dimensions, both masks are given, and \<open>enc\<close> is the
  encoder output (\<open>emb\<close> when none is passed), a tensor with at least one dimension.

  \<^item> With \<open>step = 0\<close>, \<open>forward\<close> gives every layer, before the layers run, an active
    cross-attention cache with empty keys and values and an active self-attention cache:
    empty keys and values, or for average attention a \<open>prev_g\<close> of zeros of shape
    \<open>(enc.size(0), 1, enc.size(-1))\<close>.  The layers then run on these caches.
  \<^item> With \<open>step = None\<close>, \<open>forward\<close> sets the flag of both caches of every layer to
    inactive, and the layers run on these caches.
  \<^item> With any other step, \<open>forward\<close> hands the caches to the layers as it received them.
  \<^item> The cross-attention keys and values are computed inside the attention module, which
    is a parameter here.  For every layer call that treats the cross-attention cache as
    the specification says (\<open>context_cache_as_spec\<close>: an active cache without keys is
    filled from the encoder output, any other is kept), the cross-attention cache of
    every layer after \<open>forward\<close> with \<open>step = 0\<close> is active and holds the keys and
    values derived from \<open>enc\<close>; an active, filled cross-attention cache is the same
    after \<open>forward\<close> with a later step; and after \<open>forward\<close> with \<open>step = None\<close> the
    cross-attention cache of every layer is inactive.
\<close>

theorem forward_cache_lifecycle:
  assumes "dim emb = 3" and "enc = (case enc_out of None \<Rightarrow> emb | Some e \<Rightarrow> e)"
    and "shape enc \<noteq> []" and "k \<noteq> 0"
  shows
    "(\<exists>ls. prepare_caches (Some 0) enc layers = Inr ls \<and> length ls = length layers \<and>
        (\<forall>i<length layers.
           context_attn_cache (ls ! i) = (True, KeysValues empty_tensor empty_tensor) \<and>
           self_attn_cache (ls ! i)
             = (if self_attn_kind (layers ! i) = Average
                then (True, PrevG (zeros [hd (shape enc), 1, last (shape enc)]))
                else (True, KeysValues empty_tensor empty_tensor)) \<and>
           self_attn_kind (ls ! i) = self_attn_kind (layers ! i) \<and>
           weights (ls ! i) = weights (layers ! i)) \<and>
        layers_after (forward call lnorm al layers emb enc_out (Some tgt) (Some src) (Some 0) wa ra)
          = snd (snd (snd (run_layers call enc src tgt (Some 0) wa (wa \<or> ra) ls emb Unset [])))) \<and>
     (\<exists>ls. prepare_caches None enc layers = Inr ls \<and> length ls = length layers \<and>
        (\<forall>i<length layers.
           \<not> fst (self_attn_cache (ls ! i)) \<and> \<not> fst (context_attn_cache (ls ! i))) \<and>
        layers_after (forward call lnorm al layers emb enc_out (Some tgt) (Some src) None wa ra)
          = snd (snd (snd (run_layers call enc src tgt None wa (wa \<or> ra) ls emb Unset [])))) \<and>
     (prepare_caches (Some k) enc layers = Inr layers \<and>
        layers_after (forward call lnorm al layers emb enc_out (Some tgt) (Some src) (Some k) wa ra)
          = snd (snd (snd (run_layers call enc src tgt (Some k) wa (wa \<or> ra) layers emb Unset [])))) \<and>
     (context_cache_as_spec call derive \<longrightarrow>
        (\<forall>i<length layers.
           context_attn_cache
             (layers_after (forward call lnorm al layers emb enc_out (Some tgt) (Some src) (Some 0) wa ra) ! i)
           = (True, KeysValues (fst (derive (weights (layers ! i)) enc))
                               (snd (derive (weights (layers ! i)) enc)))) \<and>
        (\<forall>i<length layers. \<forall>ck cv.
           context_attn_cache (layers ! i) = (True, KeysValues ck cv) \<and> numel ck \<noteq> 0 \<longrightarrow>
           context_attn_cache
             (layers_after (forward call lnorm al layers emb enc_out (Some tgt) (Some src) (Some k) wa ra) ! i)
           = context_attn_cache (layers ! i)) \<and>
        (\<forall>i<length layers.
           \<not> fst (context_attn_cache
             (layers_after (forward call lnorm al layers emb enc_out (Some tgt) (Some src) None wa ra) ! i))))"
proof -
  define ls0 where "ls0 = map (init_layer_cache (hd (shape enc)) (last (shape enc))) layers"
  define lsN where "lsN = map disable_layer_cache layers"
  have p0: "prepare_caches (Some 0) enc layers = Inr ls0"
    using init_cache_ok [OF assms(3)] by (simp add: prepare_caches_def ls0_def)
  have pN: "prepare_caches None enc layers = Inr lsN"
    by (simp add: prepare_caches_def lsN_def)
  have pk: "prepare_caches (Some k) enc layers = Inr layers"
    using assms(4) by (simp add: prepare_caches_def)
  have f0: "layers_after (forward call lnorm al layers emb enc_out (Some tgt) (Some src) (Some 0) wa ra)
          = snd (snd (snd (run_layers call enc src tgt (Some 0) wa (wa \<or> ra) ls0 emb Unset [])))"
    using forward_layers [OF assms(1), of "Some 0" enc_out layers ls0] p0 assms(2) by simp
  have fN: "layers_after (forward call lnorm al layers emb enc_out (Some tgt) (Some src) None wa ra)
          = snd (snd (snd (run_layers call enc src tgt None wa (wa \<or> ra) lsN emb Unset [])))"
    using forward_layers [OF assms(1), of None enc_out layers lsN] pN assms(2) by simp
  have fk: "layers_after (forward call lnorm al layers emb enc_out (Some tgt) (Some src) (Some k) wa ra)
          = snd (snd (snd (run_layers call enc src tgt (Some k) wa (wa \<or> ra) layers emb Unset [])))"
    using forward_layers [OF assms(1), of "Some k" enc_out layers layers] pk assms(2) by simp
  have i0: "context_attn_cache (ls0 ! i) = (True, KeysValues empty_tensor empty_tensor) \<and>
           self_attn_cache (ls0 ! i)
             = (if self_attn_kind (layers ! i) = Average
                then (True, PrevG (zeros [hd (shape enc), 1, last (shape enc)]))
                else (True, KeysValues empty_tensor empty_tensor)) \<and>
           self_attn_kind (ls0 ! i) = self_attn_kind (layers ! i) \<and>
           weights (ls0 ! i) = weights (layers ! i)"
    if "i < length layers" for i
    using that by (simp add: ls0_def init_layer_cache_def)
  have iN: "\<not> fst (self_attn_cache (lsN ! i)) \<and> \<not> fst (context_attn_cache (lsN ! i)) \<and>
            weights (lsN ! i) = weights (layers ! i)"
    if "i < length layers" for i
    using that by (simp add: lsN_def disable_layer_cache_def)
  have A: "\<exists>ls. prepare_caches (Some 0) enc layers = Inr ls \<and> length ls = length layers \<and>
        (\<forall>i<length layers.
           context_attn_cache (ls ! i) = (True, KeysValues empty_tensor empty_tensor) \<and>
           self_attn_cache (ls ! i)
             = (if self_attn_kind (layers ! i) = Average
                then (True, PrevG (zeros [hd (shape enc), 1, last (shape enc)]))
                else (True, KeysValues empty_tensor empty_tensor)) \<and>
           self_attn_kind (ls ! i) = self_attn_kind (layers ! i) \<and>
           weights (ls ! i) = weights (layers ! i)) \<and>
        layers_after (forward call lnorm al layers emb enc_out (Some tgt) (Some src) (Some 0) wa ra)
          = snd (snd (snd (run_layers call enc src tgt (Some 0) wa (wa \<or> ra) ls emb Unset [])))"
    using p0 i0 f0 by (intro exI [of _ ls0]) (simp add: ls0_def)
  have B: "\<exists>ls. prepare_caches None enc layers = Inr ls \<and> length ls = length layers \<and>
        (\<forall>i<length layers.
           \<not> fst (self_attn_cache (ls ! i)) \<and> \<not> fst (context_attn_cache (ls ! i))) \<and>
        layers_after (forward call lnorm al layers emb enc_out (Some tgt) (Some src) None wa ra)
          = snd (snd (snd (run_layers call enc src tgt None wa (wa \<or> ra) ls emb Unset [])))"
    using pN iN fN by (intro exI [of _ lsN]) (simp add: lsN_def)
  have D: "(\<forall>i<length layers.
           context_attn_cache
             (layers_after (forward call lnorm al layers emb enc_out (Some tgt) (Some src) (Some 0) wa ra) ! i)
           = (True, KeysValues (fst (derive (weights (layers ! i)) enc))
                               (snd (derive (weights (layers ! i)) enc)))) \<and>
        (\<forall>i<length layers. \<forall>ck cv.
           context_attn_cache (layers ! i) = (True, KeysValues ck cv) \<and> numel ck \<noteq> 0 \<longrightarrow>
           context_attn_cache
             (layers_after (forward call lnorm al layers emb enc_out (Some tgt) (Some src) (Some k) wa ra) ! i)
           = context_attn_cache (layers ! i)) \<and>
        (\<forall>i<length layers.
           \<not> fst (context_attn_cache
             (layers_after (forward call lnorm al layers emb enc_out (Some tgt) (Some src) None wa ra) ! i)))"
    if spec: "context_cache_as_spec call derive"
  proof -
    have after: "context_attn_cache
                   (snd (snd (snd (run_layers call enc src tgt step wa ra' ls emb Unset []))) ! i)
                 = context_attn_cache_step derive (weights (ls ! i)) enc (context_attn_cache (ls ! i))"
      if "i < length ls" for i ls step ra'
    proof -
      from run_layers_layers [of call enc src tgt step wa ra' ls emb Unset "[]"]
      obtain e a al rs where r:
        "run_layers call enc src tgt step wa ra' ls emb Unset [] = (e, a, al, rs)"
        "\<forall>i<length ls. \<exists>x. rs ! i = snd (call (ls ! i) x enc src tgt step wa ra')"
        by blast
      from r(2) that obtain x where "rs ! i = snd (call (ls ! i) x enc src tgt step wa ra')"
        by blast
      then show ?thesis using r(1) spec by (simp add: context_cache_as_spec_def)
    qed
    have d0: "context_attn_cache
             (layers_after (forward call lnorm al layers emb enc_out (Some tgt) (Some src) (Some 0) wa ra) ! i)
           = (True, KeysValues (fst (derive (weights (layers ! i)) enc))
                               (snd (derive (weights (layers ! i)) enc)))"
      if "i < length layers" for i
    proof -
      have "i < length ls0" using that by (simp add: ls0_def)
      from after [OF this] i0 [OF that] show ?thesis
        by (simp add: f0 context_step_empty)
    qed
    have dk: "context_attn_cache
             (layers_after (forward call lnorm al layers emb enc_out (Some tgt) (Some src) (Some k) wa ra) ! i)
           = context_attn_cache (layers ! i)"
      if "i < length layers" "context_attn_cache (layers ! i) = (True, KeysValues ck cv)" "numel ck \<noteq> 0"
      for i ck cv
      using after [OF that(1)] that(2,3) by (simp add: fk context_step_filled)
    have dN: "\<not> fst (context_attn_cache
             (layers_after (forward call lnorm al layers emb enc_out (Some tgt) (Some src) None wa ra) ! i))"
      if "i < length layers" for i
    proof -
      have l: "i < length lsN" using that by (simp add: lsN_def)
      have "context_attn_cache (lsN ! i) = (False, KeysValues empty_tensor empty_tensor)"
        using that by (simp add: lsN_def disable_layer_cache_def)
      then show ?thesis using after [OF l] by (simp add: fN context_step_inactive)
    qed
    show ?thesis using d0 dk dN by blast
  qed
  from A B pk fk D show ?thesis by blast
qed

theorem forward_cache_lifecycle_witness:
  "forward (spec_layer_call demo_derive) (\<lambda>t. t) 0 demo_layers demo_emb (Some demo_enc)
      (Some demo_mask) (Some demo_mask) (Some 0) False False
     = Inr ((demo_emb, \<lparr>std = None, align = None\<rparr>), demo_layers_started) \<and>
   layers_after (forward (spec_layer_call demo_derive) (\<lambda>t. t) 0 demo_layers_started demo_emb
      (Some demo_enc) (Some demo_mask) (Some demo_mask) (Some 1) False False)
     = demo_layers_started \<and>
   layers_after (forward (spec_layer_call demo_derive) (\<lambda>t. t) 0 demo_layers_started demo_emb
      (Some demo_enc) (Some demo_mask) (Some demo_mask) None False False)
     = demo_layers"
proof -
  have d: "dim demo_emb = 3" by (simp add: dim_def demo_emb_def)
  have e: "demo_enc = (case Some demo_enc of None \<Rightarrow> demo_emb | Some e \<Rightarrow> e)" by simp
  have s: "shape demo_enc \<noteq> []" by (simp add: demo_enc_def)
  have k: "(1 :: int) \<noteq> 0" by simp
  note t = forward_cache_lifecycle [OF d e s k, of _ "spec_layer_call demo_derive" "\<lambda>t. t" 0
      demo_mask demo_mask False False demo_derive]
  have sp: "context_cache_as_spec (spec_layer_call demo_derive) demo_derive"
    by (simp add: context_cache_as_spec_def spec_layer_call_def)
  have c0: "context_attn_cache
          (layers_after (forward (spec_layer_call demo_derive) (\<lambda>t. t) 0 demo_layers demo_emb
             (Some demo_enc) (Some demo_mask) (Some demo_mask) (Some 0) False False) ! 0)
        = (True, KeysValues demo_enc demo_enc)"
    using t [of demo_layers] sp by (simp add: demo_layers_def demo_derive_def)
  have r0: "forward (spec_layer_call demo_derive) (\<lambda>t. t) 0 demo_layers demo_emb (Some demo_enc)
      (Some demo_mask) (Some demo_mask) (Some 0) False False
     = Inr ((demo_emb, \<lparr>std = None, align = None\<rparr>), demo_layers_started)"
    by (simp add: Let_def forward_def dim_def demo_emb_def prepare_caches_def init_cache_def size_at_def
        list_get_def py_index_def demo_enc_def demo_layers_def demo_layers_started_def
        init_layer_cache_def spec_layer_call_def context_attn_cache_step_def numel_def
        empty_tensor_def zeros_def demo_derive_def eval_nat_numeral)
  have r1: "layers_after (forward (spec_layer_call demo_derive) (\<lambda>t. t) 0 demo_layers_started demo_emb
      (Some demo_enc) (Some demo_mask) (Some demo_mask) (Some 1) False False)
     = demo_layers_started"
    by (simp add: Let_def forward_def layers_after_def dim_def demo_emb_def prepare_caches_def
        demo_enc_def demo_layers_started_def spec_layer_call_def context_attn_cache_step_def
        numel_def empty_tensor_def demo_derive_def)
  have rN: "layers_after (forward (spec_layer_call demo_derive) (\<lambda>t. t) 0 demo_layers_started demo_emb
      (Some demo_enc) (Some demo_mask) (Some demo_mask) None False False)
     = demo_layers"
    by (simp add: Let_def forward_def layers_after_def dim_def demo_emb_def prepare_caches_def
        demo_enc_def demo_layers_started_def demo_layers_def disable_layer_cache_def
        spec_layer_call_def context_attn_cache_step_def numel_def empty_tensor_def demo_derive_def)
  from c0 r0 r1 rN show ?thesis by simp
qed

end
